theory Spec2Isabelle
  imports Main
begin

section \<open>draftjs-to-markdown: the block renderer of \<open>js/index.js\<close>\<close>

text \<open>
  A shallow embedding of \<open>js/index.js\<close>. Conventions:
  \<^item> a JavaScript string is a \<open>string\<close>, one \<open>char\<close> per UTF-16 code unit; offsets and
    lengths of ranges are the non-negative integers of a Draft.js raw block (\<open>nat\<close>);
  \<^item> \<open>undefined\<close> is \<open>None\<close>: a hole of a sparse array, a missing property, an omitted
    argument; a template literal and \<open>Array.prototype.join\<close> print it differently
    (\<open>template\<close>, \<open>join\<close>);
  \<^item> a thrown \<open>TypeError\<close> is \<open>Inl\<close> of the place that throws it; the module is an
    ES module, hence strict code;
  \<^item> an object whose key order is observed (a styles object, block data) is an association
    list in insertion order;
  \<^item> lookups consult own properties only, and \<open>Object.prototype\<close> is not represented. So a
    block type that names a member inherited from it (such as \<open>constructor\<close>) is outside
    the modelled inputs, and so is the style tag \<open>__proto__\<close>, whose write stores index
    properties on \<open>Object.prototype\<close> that later reads of array holes and of missing keys
    find. Statements that depend on such reads exclude that tag; \<open>Object.prototype\<close> is
    taken to have no index properties when a conversion starts.
\<close>

subsection \<open>Values and errors\<close>

datatype error =
  EntityUndefined      \<comment> \<open>\<open>entity.type\<close> read on an \<open>undefined\<close> entity\<close>
  | PropertyOnNumber   \<comment> \<open>strict-mode write of an index property on the number \<open>inlineStyles.length\<close>\<close>
  | SectionUndefined   \<comment> \<open>\<open>section.text\<close> read while \<open>section\<close> is still \<open>undefined\<close>\<close>

text \<open>A slot of a style vector: \<open>true\<close> or the string after a property prefix.\<close>

datatype slot = Flag | Val string

fun truthy :: "slot option \<Rightarrow> bool" where
  "truthy None = False"
| "truthy (Some Flag) = True"
| "truthy (Some (Val s)) = (s \<noteq> [])"

fun show_slot :: "slot \<Rightarrow> string" where
  "show_slot Flag = ''true''"
| "show_slot (Val s) = s"

text \<open>\<open>${v}\<close> in a template literal, and one element of \<open>Array.prototype.join\<close>.\<close>

definition template :: "string option \<Rightarrow> string" where
  "template v = (case v of None \<Rightarrow> ''undefined'' | Some s \<Rightarrow> s)"

definition join :: "string option list \<Rightarrow> string" where
  "join xs = concat (map (\<lambda>v. case v of None \<Rightarrow> [] | Some s \<Rightarrow> s) xs)"

text \<open>\<open>s[i]\<close> on a string: \<open>undefined\<close> out of range.\<close>

definition charAt :: "string \<Rightarrow> nat \<Rightarrow> char option" where
  "charAt s i = (if i < length s then Some (s ! i) else None)"

definition startsWith :: "string \<Rightarrow> string \<Rightarrow> bool" where
  "startsWith s p = (take (length p) s = p)"

text \<open>
  \<open>Array.prototype.forEach\<close> and a counting \<open>for\<close> loop whose body updates local state
  and may throw: the first throw ends the iteration.
\<close>

fun forEachE :: "('a \<Rightarrow> 's \<Rightarrow> error + 's) \<Rightarrow> 'a list \<Rightarrow> 's \<Rightarrow> error + 's" where
  "forEachE f [] s = Inr s"
| "forEachE f (x # xs) s = (case f x s of Inl e \<Rightarrow> Inl e | Inr s' \<Rightarrow> forEachE f xs s')"

text \<open>
  Modelled from the spec: \<open>forEach\<close> of \<open>./common\<close> is not among the sources. The spec has
  it visit the entries of an object "in whatever order the style values were inserted"
  and "in mapping order"; the callback receives key and value.
\<close>

definition forEach :: "(string \<times> 'v) list \<Rightarrow> (string \<Rightarrow> 'v \<Rightarrow> 's \<Rightarrow> 's) \<Rightarrow> 's \<Rightarrow> 's" where
  "forEach obj callback s = fold (\<lambda>(k, v). callback k v) obj s"

text \<open>
  Modelled from the spec: \<open>isEmptyString\<close> of \<open>./common\<close> is not among the sources. The
  spec calls a block atomic when it has "an empty text field".
\<close>

definition isEmptyString :: "string \<Rightarrow> bool" where
  "isEmptyString str = (str = [])"

subsection \<open>The document model\<close>

record range =
  offset :: nat
  length_r :: nat

record inlineStyleRange = range +
  style :: string

record entityRange = range +
  key :: nat

record entity =
  type_e :: string
  data_e :: "string \<rightharpoonup> string"

type_synonym entityMap = "nat \<rightharpoonup> entity"

record block =
  type_b :: string
  text_b :: string
  inlineStyleRanges :: "inlineStyleRange list"
  entityRanges :: "entityRange list"
  data :: "(string \<times> string) list option"

subsection \<open>Block prefix\<close>

definition blockTypesMapping :: "(string \<times> string) list" where
  "blockTypesMapping =
    [(''unstyled'', ''''),
     (''header-one'', ''# ''),
     (''header-two'', ''## ''),
     (''header-three'', ''### ''),
     (''header-four'', ''#### ''),
     (''header-five'', ''##### ''),
     (''header-six'', ''###### ''),
     (''unordered-list-item'', ''- ''),
     (''ordered-list-item'', ''1. ''),
     (''blockquote'', ''> '')]"

text \<open>
  The lookup finds the ten entries of the table; a type that names a member inherited
  from \<open>Object.prototype\<close> would find that member, which is not represented.
\<close>

definition getBlockTagSymbol :: "block \<Rightarrow> string option" where
  "getBlockTagSymbol b =
    (if type_b b = [] then Some (type_b b) else map_of blockTypesMapping (type_b b))"

definition isAtomicBlock :: "block \<Rightarrow> bool" where
  "isAtomicBlock b = (length (entityRanges b) > 0 \<and> isEmptyString (text_b b))"

subsection \<open>Entities\<close>

definition getEntityMarkdown :: "entityMap \<Rightarrow> nat \<Rightarrow> string option \<Rightarrow> error + string option" where
  "getEntityMarkdown em entityKey text =
    (case em entityKey of
       None \<Rightarrow> Inl EntityUndefined
     | Some ent \<Rightarrow>
        if type_e ent = ''LINK'' \<or> type_e ent = ''MENTION''
        then Inr (Some (''['' @ template text @ '']('' @ template (data_e ent ''url'') @ '')''))
        else if type_e ent = ''IMAGE''
        then Inr (Some (''!('' @ template (data_e ent ''src'') @ '')''))
        else Inr text)"

record bounds =
  start :: nat
  end_s :: nat

record entitySection = bounds +
  entityKey :: "nat option"

text \<open>The body of the \<open>forEach\<close> of \<open>getEntitySections\<close>, on the pair (sections, lastOffset).\<close>

definition entityStep :: "entityRange \<Rightarrow> entitySection list \<times> nat \<Rightarrow> entitySection list \<times> nat" where
  "entityStep r st =
    (let (sections, lastOffset) = st;
         sections1 =
           (if offset r > lastOffset
            then sections @ [\<lparr>start = lastOffset, end_s = offset r - 1, entityKey = None\<rparr>]
            else sections);
         sections2 =
           sections1 @ [\<lparr>start = offset r, end_s = offset r + length_r r, entityKey = Some (key r)\<rparr>]
     in (sections2, offset r + length_r r))"

definition getEntitySections :: "entityRange list \<Rightarrow> nat \<Rightarrow> entitySection list" where
  "getEntitySections ranges blockLength =
    (let (sections, lastOffset) = fold entityStep ranges ([], 0)
     in if lastOffset < blockLength
        then sections @ [\<lparr>start = lastOffset, end_s = blockLength, entityKey = None\<rparr>]
        else sections)"

subsection \<open>Style vectors\<close>

text \<open>
  The eleven arrays of the object built by \<open>getStyleArrayForBlock\<close>. An array created by
  \<open>new Array(n)\<close> has only holes, a write at any index stores there (growing the array
  when needed) and a read returns the stored value or \<open>undefined\<close>: a partial map from
  indices. The twelfth property, \<open>length\<close>, is the number \<open>text.length\<close>.
\<close>

datatype kind =
  COLOR | BGCOLOR | FONTSIZE | FONTFAMILY | SUBSCRIPT | SUPERSCRIPT | CODE
  | STRIKETHROUGH | UNDERLINE | ITALIC | BOLD

record inlineStyles =
  vec :: "kind \<Rightarrow> nat \<rightharpoonup> slot"
  length_s :: nat

definition kindNames :: "(string \<times> kind) list" where
  "kindNames =
    [(''COLOR'', COLOR), (''BGCOLOR'', BGCOLOR), (''FONTSIZE'', FONTSIZE),
     (''FONTFAMILY'', FONTFAMILY), (''SUBSCRIPT'', SUBSCRIPT), (''SUPERSCRIPT'', SUPERSCRIPT),
     (''CODE'', CODE), (''STRIKETHROUGH'', STRIKETHROUGH), (''UNDERLINE'', UNDERLINE),
     (''ITALIC'', ITALIC), (''BOLD'', BOLD)]"

definition writeSlot :: "inlineStyles \<Rightarrow> kind \<Rightarrow> nat \<Rightarrow> slot \<Rightarrow> inlineStyles" where
  "writeSlot st k i v = st\<lparr>vec := (vec st)(k := (vec st k)(i \<mapsto> v))\<rparr>"

text \<open>
  The body of the inner \<open>for\<close> loop. In the last branch \<open>inlineStyles[range.style]\<close> is
  an array for the eleven names (an array is truthy, also for the four property names),
  the number \<open>text.length\<close> for the tag \<open>length\<close> (truthy unless 0; the write of an index
  property on a number throws in strict code), and \<open>undefined\<close> for every other tag
  that names no inherited member. For an inherited function (such as \<open>toString\<close>) the
  write stores on that function and changes no vector, as here. For \<open>__proto__\<close> the
  write stores on \<open>Object.prototype\<close> itself: that effect is not represented (see
  \<open>noPrototypeWrite\<close>).
\<close>

definition styleBody :: "string \<Rightarrow> nat \<Rightarrow> inlineStyles \<Rightarrow> error + inlineStyles" where
  "styleBody tag i st =
    (if startsWith tag ''color-'' then Inr (writeSlot st COLOR i (Val (drop 6 tag)))
     else if startsWith tag ''bgcolor-'' then Inr (writeSlot st BGCOLOR i (Val (drop 8 tag)))
     else if startsWith tag ''fontsize-'' then Inr (writeSlot st FONTSIZE i (Val (drop 9 tag)))
     else if startsWith tag ''fontfamily-'' then Inr (writeSlot st FONTFAMILY i (Val (drop 11 tag)))
     else (case map_of kindNames tag of
             Some k \<Rightarrow> Inr (writeSlot st k i Flag)
           | None \<Rightarrow>
              if tag = ''length'' \<and> length_s st \<noteq> 0 then Inl PropertyOnNumber else Inr st))"

definition styleRange :: "inlineStyleRange \<Rightarrow> inlineStyles \<Rightarrow> error + inlineStyles" where
  "styleRange r st = forEachE (styleBody (style r)) [offset r ..< offset r + length_r r] st"

definition getStyleArrayForBlock :: "block \<Rightarrow> error + inlineStyles" where
  "getStyleArrayForBlock b =
    forEachE styleRange (inlineStyleRanges b)
      \<lparr>vec = (\<lambda>k. Map.empty), length_s = length (text_b b)\<rparr>"

text \<open>
  \<open>sameStyleAsPrevious\<close>; the keys are those of the two constant lists its caller passes.
\<close>

definition sameStyleAsPrevious :: "inlineStyles \<Rightarrow> kind list \<Rightarrow> nat \<Rightarrow> bool" where
  "sameStyleAsPrevious st keys index =
    (if index > 0 \<and> index < length_s st
     then fold (\<lambda>k sameStyled. sameStyled \<and> vec st k index = vec st k (index - 1)) keys True
     else False)"

text \<open>The styles object of \<open>getStylesAtOffset\<close>, its entries in the order they are inserted.\<close>

fun valueEntry :: "string \<Rightarrow> slot option \<Rightarrow> (string \<times> slot) list" where
  "valueEntry name None = []"
| "valueEntry name (Some v) = (if truthy (Some v) then [(name, v)] else [])"

definition flagEntry :: "string \<Rightarrow> slot option \<Rightarrow> (string \<times> slot) list" where
  "flagEntry name v = (if truthy v then [(name, Flag)] else [])"

definition getStylesAtOffset :: "inlineStyles \<Rightarrow> nat \<Rightarrow> (string \<times> slot) list" where
  "getStylesAtOffset st i =
    valueEntry ''COLOR'' (vec st COLOR i)
    @ valueEntry ''BGCOLOR'' (vec st BGCOLOR i)
    @ valueEntry ''FONTSIZE'' (vec st FONTSIZE i)
    @ valueEntry ''FONTFAMILY'' (vec st FONTFAMILY i)
    @ flagEntry ''SUBSCRIPT'' (vec st SUBSCRIPT i)
    @ flagEntry ''SUPERSCRIPT'' (vec st SUPERSCRIPT i)
    @ flagEntry ''CODE'' (vec st CODE i)
    @ flagEntry ''STRIKETHROUGH'' (vec st STRIKETHROUGH i)
    @ flagEntry ''UNDERLINE'' (vec st UNDERLINE i)
    @ flagEntry ''ITALIC'' (vec st ITALIC i)
    @ flagEntry ''BOLD'' (vec st BOLD i)"

subsection \<open>Runs of equal style\<close>

record styleSection = bounds +
  styles :: "(string \<times> slot) list"
  text_s :: "char option list"

text \<open>
  The body of the \<open>for\<close> loop of \<open>getStyleSections\<close>. The variable \<open>section\<close> is the object
  pushed last, so the first branch updates the last element of the array; with nothing
  pushed yet \<open>section\<close> is \<open>undefined\<close> and the read of \<open>section.text\<close> throws.
\<close>

definition sectionBody ::
  "string \<Rightarrow> inlineStyles \<Rightarrow> kind list \<Rightarrow> nat \<Rightarrow> nat \<Rightarrow> styleSection list \<Rightarrow> error + styleSection list" where
  "sectionBody text st keys start0 i styleSections =
    (if i \<noteq> start0 \<and> sameStyleAsPrevious st keys i
     then (if styleSections = [] then Inl SectionUndefined
           else Inr (butlast styleSections @
                  [(last styleSections)
                     \<lparr>end_s := i + 1, text_s := text_s (last styleSections) @ [charAt text i]\<rparr>]))
     else Inr (styleSections @
            [\<lparr>start = i, end_s = i + 1, styles = getStylesAtOffset st i, text_s = [charAt text i]\<rparr>]))"

definition getStyleSections :: "block \<Rightarrow> kind list \<Rightarrow> nat \<Rightarrow> nat \<Rightarrow> error + styleSection list" where
  "getStyleSections b keys start0 end0 =
    (if length (text_b b) > 0
     then (case getStyleArrayForBlock b of
             Inl e \<Rightarrow> Inl e
           | Inr st \<Rightarrow> forEachE (sectionBody (text_b b) st keys start0) [start0 ..< end0] [])
     else Inr [])"

subsection \<open>Markup\<close>

definition escapeChar :: "char option \<Rightarrow> string option" where
  "escapeChar ch =
    (if ch = Some (CHR 0x0A) then Some [CHR 0x5C, CHR ''s'', CHR 0x5C, CHR ''s'', CHR 0x0A]
     else if ch = Some (CHR ''&'') then Some ''&amp;''
     else if ch = Some (CHR ''<'') then Some ''&lt;''
     else if ch = Some (CHR ''>'') then Some ''&gt;''
     else map_option (\<lambda>c. [c]) ch)"

definition getSectionText :: "char option list \<Rightarrow> string" where
  "getSectionText text = (if length text > 0 then join (map escapeChar text) else [])"

definition addInlineStyleMarkup :: "string \<Rightarrow> string \<Rightarrow> string" where
  "addInlineStyleMarkup tag content =
    (if tag = ''BOLD'' then ''**'' @ content @ ''**''
     else if tag = ''ITALIC'' then ''*'' @ content @ ''*''
     else if tag = ''UNDERLINE'' then ''__'' @ content @ ''__''
     else if tag = ''STRIKETHROUGH'' then ''~~'' @ content @ ''~~''
     else if tag = ''CODE'' then [CHR 0x60] @ content @ [CHR 0x60]
     else if tag = ''SUPERSCRIPT'' then ''<sup>'' @ content @ ''</sup>''
     else if tag = ''SUBSCRIPT'' then ''<sub>'' @ content @ ''</sub>''
     else content)"

definition getStyleTagSectionMarkdown :: "(string \<times> slot) list \<Rightarrow> string \<Rightarrow> string" where
  "getStyleTagSectionMarkdown stys text =
    forEach stys (\<lambda>tag val content. addInlineStyleMarkup tag content) text"

definition addStylePropertyMarkdown :: "styleSection \<Rightarrow> string" where
  "addStylePropertyMarkdown styleSection =
    (let stys = map_of (styles styleSection);
         content = getSectionText (text_s styleSection)
     in if truthy (stys ''COLOR'') \<or> truthy (stys ''BGCOLOR'') \<or> truthy (stys ''FONTSIZE'')
           \<or> truthy (stys ''FONTFAMILY'')
        then
          (let styleString =
                 ''style='' @ [CHR 0x22]
                 @ (if truthy (stys ''COLOR'')
                    then ''color: '' @ template (map_option show_slot (stys ''COLOR'')) @ '';'' else [])
                 @ (if truthy (stys ''BGCOLOR'')
                    then ''background-color: '' @ template (map_option show_slot (stys ''BGCOLOR'')) @ '';''
                    else [])
                 @ (if truthy (stys ''FONTSIZE'')
                    then ''font-size: '' @ template (map_option show_slot (stys ''FONTSIZE'')) @ '';''
                    else [])
                 @ (if truthy (stys ''FONTFAMILY'')
                    then ''font-family: '' @ template (map_option show_slot (stys ''FONTFAMILY'')) @ '';''
                    else [])
                 @ [CHR 0x22]
           in ''<span '' @ styleString @ ''>'' @ content @ ''</span>'')
        else content)"

text \<open>The body of the outer \<open>forEach\<close> of \<open>getEntitySectionMarkdown\<close>, on \<open>styleSectionText\<close>.\<close>

definition styleSectionBody :: "block \<Rightarrow> styleSection \<Rightarrow> string \<Rightarrow> error + string" where
  "styleSectionBody b styleSection styleSectionText =
    (case getStyleSections b [COLOR, BGCOLOR, FONTSIZE, FONTFAMILY]
            (start styleSection) (end_s styleSection) of
       Inl e \<Rightarrow> Inl e
     | Inr stylePropertySections \<Rightarrow>
         Inr (styleSectionText @
              getStyleTagSectionMarkdown (styles styleSection)
                (fold (\<lambda>s acc. acc @ addStylePropertyMarkdown s) stylePropertySections [])))"

definition getEntitySectionMarkdown :: "block \<Rightarrow> entityMap \<Rightarrow> entitySection \<Rightarrow> error + string option" where
  "getEntitySectionMarkdown b em entitySection =
    (case getStyleSections b [BOLD, ITALIC, UNDERLINE, STRIKETHROUGH, CODE, SUPERSCRIPT, SUBSCRIPT]
            (start entitySection) (end_s entitySection) of
       Inl e \<Rightarrow> Inl e
     | Inr styleSections \<Rightarrow>
        (case forEachE (styleSectionBody b) styleSections [] of
           Inl e \<Rightarrow> Inl e
         | Inr styleSectionText \<Rightarrow>
            (let sectionText = join [Some styleSectionText]
             in case entityKey entitySection of
                  Some k \<Rightarrow> getEntityMarkdown em k (Some sectionText)
                | None \<Rightarrow> Inr (Some sectionText))))"

subsection \<open>Leading and trailing spaces\<close>

text \<open>
  \<open>String.prototype.replace\<close> with a one-character string pattern: the first occurrence
  is replaced (the replacement \<open>&nbsp;\<close> has no \<open>$\<close> pattern).
\<close>

fun replaceFirst :: "char \<Rightarrow> string \<Rightarrow> string \<Rightarrow> string" where
  "replaceFirst c r [] = []"
| "replaceFirst c r (x # xs) = (if x = c then r @ xs else x # replaceFirst c r xs)"

text \<open>
  The loop of \<open>trimLeadingZeros\<close>: it tests the character of the original string and
  replaces the first space of the string built so far; \<open>break\<close> leaves the loop.
\<close>

function leadingLoop :: "string \<Rightarrow> nat \<Rightarrow> string \<Rightarrow> string" where
  "leadingLoop sectionText i replacedText =
    (if i < length replacedText
     then (if charAt sectionText i = Some (CHR '' '')
           then leadingLoop sectionText (i + 1) (replaceFirst (CHR '' '') ''&nbsp;'' replacedText)
           else replacedText)
     else replacedText)"
  by pat_completeness auto
termination
  by (relation "measure (\<lambda>(sectionText, i, replacedText). length sectionText - i)")
     (auto simp: charAt_def split: if_splits)

definition trimLeadingZeros :: "string \<Rightarrow> string" where
  "trimLeadingZeros sectionText =
    (if sectionText \<noteq> [] then leadingLoop sectionText 0 sectionText else sectionText)"

text \<open>
  The loop of \<open>trimTrailingZeros\<close>: the index runs down from \<open>length - 1\<close> while it is not
  negative and tests the string built so far.
\<close>

function trailingLoop :: "int \<Rightarrow> string \<Rightarrow> string" where
  "trailingLoop i replacedText =
    (if i \<ge> 0
     then (if charAt replacedText (nat i) = Some (CHR '' '')
           then trailingLoop (i - 1)
                  (take (nat i) replacedText @ ''&nbsp;'' @ drop (nat i + 1) replacedText)
           else replacedText)
     else replacedText)"
  by pat_completeness auto
termination
  by (relation "measure (\<lambda>(i, replacedText). nat (i + 1))") auto

definition trimTrailingZeros :: "string \<Rightarrow> string" where
  "trimTrailingZeros sectionText =
    (if sectionText \<noteq> [] then trailingLoop (int (length sectionText) - 1) sectionText
     else sectionText)"

subsection \<open>Blocks\<close>

text \<open>
  The body of the \<open>forEach\<close> of \<open>getBlockContentMarkdown\<close>, on the array \<open>blockMarkdown\<close>;
  \<open>n\<close> is \<open>entitySections.length\<close>. Both trimming functions return a falsy argument
  (\<open>undefined\<close> too) as it is.
\<close>

definition contentBody ::
  "block \<Rightarrow> entityMap \<Rightarrow> nat \<Rightarrow> nat \<times> entitySection \<Rightarrow> string option list \<Rightarrow> error + string option list" where
  "contentBody b em n ixs blockMarkdown =
    (let (index, sect) = ixs
     in case getEntitySectionMarkdown b em sect of
          Inl e \<Rightarrow> Inl e
        | Inr sectionText \<Rightarrow>
           (let sectionText1 =
                  (if index = 0 then map_option trimLeadingZeros sectionText else sectionText);
                sectionText2 =
                  (if int index = int n - 1 then map_option trimTrailingZeros sectionText1
                   else sectionText1)
            in Inr (blockMarkdown @ [sectionText2])))"

definition getBlockContentMarkdown :: "block \<Rightarrow> entityMap \<Rightarrow> error + string option" where
  "getBlockContentMarkdown b em =
    (if isAtomicBlock b then getEntityMarkdown em (key (hd (entityRanges b))) None
     else
       (let entitySections = getEntitySections (entityRanges b) (length (text_b b))
        in case forEachE (contentBody b em (length entitySections))
                  (zip [0 ..< length entitySections] entitySections) [] of
             Inl e \<Rightarrow> Inl e
           | Inr blockMarkdown \<Rightarrow> Inr (Some (join blockMarkdown))))"

definition getBlockStyle :: "(string \<times> string) list \<Rightarrow> string" where
  "getBlockStyle d = forEach d (\<lambda>k v stys. stys @ k @ '':'' @ v @ '';'') []"

definition getBlockStyleProperty :: "(string \<times> string) list \<Rightarrow> string option \<Rightarrow> string option" where
  "getBlockStyleProperty blockData content =
    (let blockStyle = getBlockStyle blockData
     in if blockStyle \<noteq> []
        then Some (''<span style='' @ [CHR 0x22] @ blockStyle @ [CHR 0x22] @ ''>''
                   @ template content @ ''</span>'')
        else content)"

definition getBlockMarkdown :: "block \<Rightarrow> entityMap \<Rightarrow> error + string" where
  "getBlockMarkdown b em =
    (case getBlockContentMarkdown b em of
       Inl e \<Rightarrow> Inl e
     | Inr blockContentMarkdown \<Rightarrow>
        (let content =
               (case data b of
                  Some d \<Rightarrow> getBlockStyleProperty d blockContentMarkdown
                | None \<Rightarrow> blockContentMarkdown)
         in Inr (join [getBlockTagSymbol b, content, Some [CHR 0x0A]])))"

declare leadingLoop.simps [simp del]
declare trailingLoop.simps [simp del]

subsection \<open>Notions used to state the properties\<close>

text \<open>
  The end of the coverage before the \<open>k\<close>-th entity range: the end of the range before
  it, or 0 for the first.
\<close>

definition coverageEnd :: "entityRange list \<Rightarrow> nat \<Rightarrow> nat" where
  "coverageEnd rs k = (if k = 0 then 0 else offset (rs ! (k - 1)) + length_r (rs ! (k - 1)))"

text \<open>The sections pushed for the \<open>k\<close>-th entity range.\<close>

definition sectionsOf :: "entityRange list \<Rightarrow> nat \<Rightarrow> entitySection list" where
  "sectionsOf rs k =
    (if offset (rs ! k) > coverageEnd rs k
     then [\<lparr>start = coverageEnd rs k, end_s = offset (rs ! k) - 1, entityKey = None\<rparr>]
     else [])
    @ [\<lparr>start = offset (rs ! k), end_s = offset (rs ! k) + length_r (rs ! k),
        entityKey = Some (key (rs ! k))\<rparr>]"

text \<open>The markup of a toggle style, applied when the slot of the style is truthy.\<close>

definition wrapIf :: "string \<Rightarrow> slot option \<Rightarrow> string \<Rightarrow> string" where
  "wrapIf tag v content = (if truthy v then addInlineStyleMarkup tag content else content)"

text \<open>The marker \<open>&nbsp;\<close>, \<open>k\<close> times; the test for the space character.\<close>

definition nbsps :: "nat \<Rightarrow> string" where
  "nbsps k = concat (replicate k ''&nbsp;'')"

definition isSpace :: "char \<Rightarrow> bool" where
  "isSpace c = (c = CHR '' '')"

text \<open>
  The array and the value that one write of a range with the given tag stores, if it
  stores any: the kind of the range and its value.
\<close>

definition slotOf :: "string \<Rightarrow> (kind \<times> slot) option" where
  "slotOf tag =
    (if startsWith tag ''color-'' then Some (COLOR, Val (drop 6 tag))
     else if startsWith tag ''bgcolor-'' then Some (BGCOLOR, Val (drop 8 tag))
     else if startsWith tag ''fontsize-'' then Some (FONTSIZE, Val (drop 9 tag))
     else if startsWith tag ''fontfamily-'' then Some (FONTFAMILY, Val (drop 11 tag))
     else map_option (\<lambda>k. (k, Flag)) (map_of kindNames tag))"

text \<open>The ranges of kind \<open>k\<close> that cover the offset \<open>i\<close>, in input order.\<close>

definition coveringRanges :: "inlineStyleRange list \<Rightarrow> kind \<Rightarrow> nat \<Rightarrow> inlineStyleRange list" where
  "coveringRanges rs k i =
    filter (\<lambda>r. map_option fst (slotOf (style r)) = Some k
                \<and> offset r \<le> i \<and> i < offset r + length_r r) rs"

text \<open>The value of the last range of kind \<open>k\<close> that covers \<open>i\<close>; none when there is no such range.\<close>

definition lastWrite :: "inlineStyleRange list \<Rightarrow> kind \<Rightarrow> nat \<Rightarrow> slot option" where
  "lastWrite rs k i =
    (if coveringRanges rs k i = [] then None
     else map_option snd (slotOf (style (last (coveringRanges rs k i)))))"

text \<open>A range whose first write is the write on the number \<open>inlineStyles.length\<close>.\<close>

definition writesOnLength :: "inlineStyleRange \<Rightarrow> bool" where
  "writesOnLength r = (style r = ''length'' \<and> 0 < length_r r)"

text \<open>
  No style range of the block is tagged \<open>__proto__\<close>: the builder leaves \<open>Object.prototype\<close>
  as it is.
\<close>

definition noPrototypeWrite :: "block \<Rightarrow> bool" where
  "noPrototypeWrite b = list_all (\<lambda>r. style r \<noteq> ''__proto__'') (inlineStyleRanges b)"

text \<open>The style vectors after the writes of one range with the given tag over \<open>[a, b)\<close>.\<close>

definition paint :: "string \<Rightarrow> nat \<Rightarrow> nat \<Rightarrow> inlineStyles \<Rightarrow> inlineStyles" where
  "paint tag a b st =
    st\<lparr>vec := (\<lambda>k j. if map_option fst (slotOf tag) = Some k \<and> a \<le> j \<and> j < b
                      then map_option snd (slotOf tag) else vec st k j)\<rparr>"

text \<open>
  The escaping of one character in the words of the spec: a newline becomes two escaped
  spaces and a line break, the three reserved characters become their entities.
\<close>

definition escapeSpec :: "char \<Rightarrow> string" where
  "escapeSpec c =
    (if c = CHR 0x0A then [CHR 0x5C, CHR ''s'', CHR 0x5C, CHR ''s'', CHR 0x0A]
     else if c = CHR ''&'' then ''&amp;''
     else if c = CHR ''<'' then ''&lt;''
     else if c = CHR ''>'' then ''&gt;''
     else [c])"

text \<open>The prefix of a block as \<open>join\<close> prints it: empty for a type without an entry.\<close>

definition blockPrefix :: "block \<Rightarrow> string" where
  "blockPrefix b = (case getBlockTagSymbol b of None \<Rightarrow> [] | Some p \<Rightarrow> p)"

text \<open>The text of an entity section that renders; the trimming of the section at index \<open>j\<close> of \<open>n\<close>.\<close>

definition rendered :: "block \<Rightarrow> entityMap \<Rightarrow> entitySection \<Rightarrow> string" where
  "rendered b em s = (case getEntitySectionMarkdown b em s of Inr (Some t) \<Rightarrow> t | _ \<Rightarrow> [])"

definition edgeTrim :: "nat \<Rightarrow> nat \<Rightarrow> string \<Rightarrow> string" where
  "edgeTrim n j t =
    (let t1 = (if j = 0 then trimLeadingZeros t else t)
     in if Suc j = n then trimTrailingZeros t1 else t1)"

text \<open>The numbers of leading and of trailing spaces of a string.\<close>

definition leadingSpaces :: "string \<Rightarrow> nat" where
  "leadingSpaces t = length (takeWhile isSpace t)"

definition trailingSpaces :: "string \<Rightarrow> nat" where
  "trailingSpaces t = length (takeWhile isSpace (rev t))"

text \<open>A string without its leading and trailing spaces.\<close>

definition stripSpaces :: "string \<Rightarrow> string" where
  "stripSpaces t = rev (dropWhile isSpace (rev (dropWhile isSpace t)))"


section \<open>Properties\<close>

subsection \<open>The entity sectioner\<close>

lemma coverageEnd_snoc:
  "k \<le> length rs \<Longrightarrow> coverageEnd (rs @ [r]) k = coverageEnd rs k"
  by (auto simp: coverageEnd_def nth_append)

lemma coverageEnd_last: "coverageEnd (rs @ [r]) (Suc (length rs)) = offset r + length_r r"
  by (simp add: coverageEnd_def)

lemma sectionsOf_snoc: "k < length rs \<Longrightarrow> sectionsOf (rs @ [r]) k = sectionsOf rs k"
  by (simp add: sectionsOf_def coverageEnd_snoc nth_append)

lemma fold_entityStep:
  "fold entityStep rs ([], 0) =
     (concat (map (sectionsOf rs) [0 ..< length rs]), coverageEnd rs (length rs))"
proof (induction rs rule: rev_induct)
  case Nil
  show ?case by (simp add: coverageEnd_def)
next
  case (snoc r rs)
  have same: "map (sectionsOf (rs @ [r])) [0 ..< length rs] = map (sectionsOf rs) [0 ..< length rs]"
    by (rule map_cong) (simp_all add: sectionsOf_snoc)
  have lst: "sectionsOf (rs @ [r]) (length rs) =
    (if offset r > coverageEnd rs (length rs)
     then [\<lparr>start = coverageEnd rs (length rs), end_s = offset r - 1, entityKey = None\<rparr>]
     else [])
    @ [\<lparr>start = offset r, end_s = offset r + length_r r, entityKey = Some (key r)\<rparr>]"
    by (simp add: sectionsOf_def coverageEnd_snoc)
  have "fold entityStep (rs @ [r]) ([], 0) = entityStep r (fold entityStep rs ([], 0))"
    by simp
  also have "\<dots> = entityStep r (concat (map (sectionsOf rs) [0 ..< length rs]),
      coverageEnd rs (length rs))"
    by (simp only: snoc.IH)
  also have "\<dots> = (concat (map (sectionsOf (rs @ [r])) [0 ..< length (rs @ [r])]),
      coverageEnd (rs @ [r]) (length (rs @ [r])))"
    by (simp add: same lst coverageEnd_last entityStep_def)
  finally show ?case .
qed

text \<open>
  C1. The sections of a block are, range by range in input order: a plain section from
  the end of the previous coverage to \<open>offset - 1\<close> when the offset is strictly greater
  than that end, then the entity section from \<open>offset\<close> to \<open>offset + length\<close> with the
  key of the range; and last, only when the coverage ends before the text length, a
  plain section that ends at the text length.
\<close>

theorem getEntitySections_shape:
  "getEntitySections rs n =
     concat (map (\<lambda>k.
        (if offset (rs ! k) > coverageEnd rs k
         then [\<lparr>start = coverageEnd rs k, end_s = offset (rs ! k) - 1, entityKey = None\<rparr>]
         else [])
        @ [\<lparr>start = offset (rs ! k), end_s = offset (rs ! k) + length_r (rs ! k),
            entityKey = Some (key (rs ! k))\<rparr>]) [0 ..< length rs])
     @ (if coverageEnd rs (length rs) < n
        then [\<lparr>start = coverageEnd rs (length rs), end_s = n, entityKey = None\<rparr>]
        else [])"
  using fold_entityStep [of rs]
  by (simp add: getEntitySections_def sectionsOf_def [abs_def])

text \<open>
  C2. The sections do not cover the text exactly once. For the text \<open>abcdef\<close> with one
  entity range at offset 3 of length 2 the plain section before the entity is
  \<open>[0, 2)\<close>: offset 2 lies in no section and its character \<open>c\<close> is missing from the
  rendered content.
\<close>

theorem entity_sections_drop_character:
  "getEntitySections [\<lparr>offset = 3, length_r = 2, key = 0\<rparr>] 6 =
     [\<lparr>start = 0, end_s = 2, entityKey = None\<rparr>,
      \<lparr>start = 3, end_s = 5, entityKey = Some 0\<rparr>,
      \<lparr>start = 5, end_s = 6, entityKey = None\<rparr>]
   \<and> getBlockContentMarkdown
      \<lparr>type_b = ''unstyled'', text_b = ''abcdef'', inlineStyleRanges = [],
       entityRanges = [\<lparr>offset = 3, length_r = 2, key = 0\<rparr>], data = None\<rparr>
      [0 \<mapsto> \<lparr>type_e = ''LINK'', data_e = [''url'' \<mapsto> ''u'']\<rparr>]
    = Inr (Some ''ab[de](u)f'')"
  by code_simp

subsection \<open>Atomic blocks\<close>

text \<open>
  C3. The atomic block of the spec with an \<open>IMAGE\<close> entity renders as \<open>!(a.png)\<close>. With a
  \<open>LINK\<close> entity of url \<open>u\<close> it renders as \<open>[undefined](u)\<close>: the call passes no text, and
  the template prints the missing argument.
\<close>

theorem atomic_block_content:
  "getBlockContentMarkdown
      \<lparr>type_b = ''unstyled'', text_b = '''', inlineStyleRanges = [],
       entityRanges = [\<lparr>offset = 0, length_r = 0, key = 0\<rparr>], data = None\<rparr>
      [0 \<mapsto> \<lparr>type_e = ''IMAGE'', data_e = [''src'' \<mapsto> ''a.png'']\<rparr>]
    = Inr (Some ''!(a.png)'')
   \<and> getBlockContentMarkdown
      \<lparr>type_b = ''unstyled'', text_b = '''', inlineStyleRanges = [],
       entityRanges = [\<lparr>offset = 0, length_r = 0, key = 0\<rparr>], data = None\<rparr>
      [0 \<mapsto> \<lparr>type_e = ''LINK'', data_e = [''url'' \<mapsto> ''u'']\<rparr>]
    = Inr (Some ''[undefined](u)'')"
  by code_simp

subsection \<open>Toggle markup\<close>

lemma fold_valueEntry_markup:
  "addInlineStyleMarkup name = (\<lambda>c. c) \<Longrightarrow>
   fold (\<lambda>(tag, val). addInlineStyleMarkup tag) (valueEntry name v) x = x"
  by (cases v) auto

lemma fold_flagEntry_markup:
  "fold (\<lambda>(tag, val). addInlineStyleMarkup tag) (flagEntry name v) x = wrapIf name v x"
  by (simp add: flagEntry_def wrapIf_def)

lemma property_names_no_markup:
  "addInlineStyleMarkup ''COLOR'' = (\<lambda>c. c)"
  "addInlineStyleMarkup ''BGCOLOR'' = (\<lambda>c. c)"
  "addInlineStyleMarkup ''FONTSIZE'' = (\<lambda>c. c)"
  "addInlineStyleMarkup ''FONTFAMILY'' = (\<lambda>c. c)"
  by (simp_all add: addInlineStyleMarkup_def fun_eq_iff)

text \<open>
  C5, as amended. The markups of the toggle styles present at an offset are applied in
  the order in which \<open>getStylesAtOffset\<close> inserts them: \<open>SUBSCRIPT\<close>, \<open>SUPERSCRIPT\<close>,
  \<open>CODE\<close>, \<open>STRIKETHROUGH\<close>, \<open>UNDERLINE\<close>, \<open>ITALIC\<close>, \<open>BOLD\<close>. \<open>SUBSCRIPT\<close> is
  innermost and \<open>BOLD\<close> outermost.
\<close>

theorem toggle_markup_order:
  "getStyleTagSectionMarkdown (getStylesAtOffset st i) x =
     wrapIf ''BOLD'' (vec st BOLD i)
      (wrapIf ''ITALIC'' (vec st ITALIC i)
        (wrapIf ''UNDERLINE'' (vec st UNDERLINE i)
          (wrapIf ''STRIKETHROUGH'' (vec st STRIKETHROUGH i)
            (wrapIf ''CODE'' (vec st CODE i)
              (wrapIf ''SUPERSCRIPT'' (vec st SUPERSCRIPT i)
                (wrapIf ''SUBSCRIPT'' (vec st SUBSCRIPT i) x))))))"
  by (simp only: getStyleTagSectionMarkdown_def forEach_def getStylesAtOffset_def fold_append
      comp_apply fold_flagEntry_markup fold_valueEntry_markup [OF property_names_no_markup(1)]
      fold_valueEntry_markup [OF property_names_no_markup(2)]
      fold_valueEntry_markup [OF property_names_no_markup(3)]
      fold_valueEntry_markup [OF property_names_no_markup(4)])

text \<open>
  C5, as stated, fails: a run that is both \<open>BOLD\<close> and \<open>UNDERLINE\<close> renders with the
  underline markup inside the bold markup.
\<close>

theorem bold_underline_counterexample:
  "getBlockContentMarkdown
      \<lparr>type_b = ''unstyled'', text_b = ''x'',
       inlineStyleRanges = [\<lparr>offset = 0, length_r = 1, style = ''BOLD''\<rparr>,
                            \<lparr>offset = 0, length_r = 1, style = ''UNDERLINE''\<rparr>],
       entityRanges = [], data = None\<rparr> Map.empty
    = Inr (Some ''**__x__**'')
   \<and> getBlockContentMarkdown
      \<lparr>type_b = ''unstyled'', text_b = ''x'',
       inlineStyleRanges = [\<lparr>offset = 0, length_r = 1, style = ''BOLD''\<rparr>,
                            \<lparr>offset = 0, length_r = 1, style = ''UNDERLINE''\<rparr>],
       entityRanges = [], data = None\<rparr> Map.empty
    \<noteq> Inr (Some ''__**x**__'')"
  by code_simp

subsection \<open>Leading and trailing spaces\<close>

lemma isSpace_space [simp]: "isSpace (CHR '' '')"
  by (simp add: isSpace_def)

lemma isSpace_other: "c \<noteq> CHR '' '' \<Longrightarrow> \<not> isSpace c"
  by (simp add: isSpace_def)

lemma isSpace_marker [simp]: "\<not> isSpace (CHR ''&'')" "\<not> isSpace (CHR '';'')"
  by (simp_all add: isSpace_def)

lemma nbsps_0 [simp]: "nbsps 0 = []"
  by (simp add: nbsps_def)

lemma replaceFirst_first:
  "c \<notin> set q \<Longrightarrow> replaceFirst c r (q @ c # s) = q @ r @ s"
  by (induction q) auto

lemma charAt_append_here: "charAt (p @ c # s) (length p) = Some c"
  by (simp add: charAt_def)

lemma charAt_end: "charAt p (length p) = None"
  by (simp add: charAt_def)

lemma nbsps_Suc: "nbsps (Suc k) = ''&nbsp;'' @ nbsps k"
  by (simp add: nbsps_def)

lemma nbsps_Suc_right: "nbsps (Suc k) = nbsps k @ ''&nbsp;''"
  by (induction k) (simp_all add: nbsps_def)

lemma leadingLoop_closed:
  "CHR '' '' \<notin> set q \<Longrightarrow> length p \<le> length q \<Longrightarrow>
   leadingLoop (p @ s) (length p) (q @ s) =
     q @ nbsps (length (takeWhile isSpace s)) @ dropWhile isSpace s"
proof (induction s arbitrary: p q)
  case Nil
  then show ?case
    by (simp add: leadingLoop.simps [of p "length p" q] charAt_end nbsps_def)
next
  case (Cons c s)
  show ?case
  proof (cases "c = CHR '' ''")
    case True
    have step: "leadingLoop (p @ c # s) (length p) (q @ c # s) =
        leadingLoop ((p @ [c]) @ s) (length (p @ [c])) ((q @ ''&nbsp;'') @ s)"
      using Cons.prems True
      by (subst leadingLoop.simps) (simp add: charAt_append_here replaceFirst_first)
    have "leadingLoop ((p @ [c]) @ s) (length (p @ [c])) ((q @ ''&nbsp;'') @ s) =
        (q @ ''&nbsp;'') @ nbsps (length (takeWhile isSpace s)) @ dropWhile isSpace s"
      using Cons.prems by (intro Cons.IH) auto
    with step True show ?thesis
      by (simp add: nbsps_Suc)
  next
    case False
    then show ?thesis
      using Cons.prems
      by (subst leadingLoop.simps) (simp add: charAt_append_here isSpace_other)
  qed
qed

lemma trimLeadingZeros_closed:
  "trimLeadingZeros s = nbsps (length (takeWhile isSpace s)) @ dropWhile isSpace s"
  using leadingLoop_closed [of "[]" "[]" s]
  by (simp add: trimLeadingZeros_def)

lemma trailingLoop_closed:
  "trailingLoop (int (length xs) - 1) (xs @ ys) =
     rev (dropWhile isSpace (rev xs)) @ nbsps (length (takeWhile isSpace (rev xs))) @ ys"
proof (induction xs arbitrary: ys rule: rev_induct)
  case Nil
  show ?case by (simp add: trailingLoop.simps [of "-1"])
next
  case (snoc c xs)
  show ?case
  proof (cases "c = CHR '' ''")
    case True
    have "trailingLoop (int (length (xs @ [c])) - 1) ((xs @ [c]) @ ys) =
        trailingLoop (int (length xs) - 1) (xs @ (''&nbsp;'' @ ys))"
      using True
      by (subst trailingLoop.simps) (simp add: charAt_append_here)
    also have "\<dots> = rev (dropWhile isSpace (rev xs)) @
        nbsps (length (takeWhile isSpace (rev xs))) @ ''&nbsp;'' @ ys"
      by (rule snoc.IH)
    finally show ?thesis
      using True by (simp add: nbsps_Suc_right)
  next
    case False
    then show ?thesis
      by (subst trailingLoop.simps) (simp add: charAt_append_here isSpace_other)
  qed
qed

lemma trimTrailingZeros_closed:
  "trimTrailingZeros s =
     rev (dropWhile isSpace (rev s)) @ nbsps (length (takeWhile isSpace (rev s)))"
  using trailingLoop_closed [of s "[]"]
  by (simp add: trimTrailingZeros_def)

lemma nbsps_takeWhile: "takeWhile isSpace (nbsps k @ s) = (if k = 0 then takeWhile isSpace s else [])"
  by (cases k) (simp_all add: nbsps_Suc)

lemma nbsps_dropWhile: "dropWhile isSpace (nbsps k @ s) = (if k = 0 then dropWhile isSpace s else nbsps k @ s)"
  by (cases k) (simp_all add: nbsps_Suc)

lemma takeWhile_dropWhile_same: "takeWhile P (dropWhile P s) = []"
  by (induction s) auto

lemma rev_nbsps_takeWhile:
  "takeWhile isSpace (rev (nbsps k) @ t) = (if k = 0 then takeWhile isSpace t else [])"
  by (cases k) (simp_all add: nbsps_Suc_right)

text \<open>
  C10. Both trimming functions are idempotent.
\<close>

theorem trim_idempotent:
  "trimLeadingZeros (trimLeadingZeros s) = trimLeadingZeros s
   \<and> trimTrailingZeros (trimTrailingZeros s) = trimTrailingZeros s"
proof
  show "trimLeadingZeros (trimLeadingZeros s) = trimLeadingZeros s"
    by (simp add: trimLeadingZeros_closed nbsps_takeWhile nbsps_dropWhile
        takeWhile_dropWhile_same)
next
  let ?t = "rev (dropWhile isSpace (rev s))"
  let ?k = "length (takeWhile isSpace (rev s))"
  have tw: "takeWhile isSpace (rev (?t @ nbsps ?k)) = []"
    by (simp add: rev_nbsps_takeWhile takeWhile_dropWhile_same)
  then have dw: "dropWhile isSpace (rev (?t @ nbsps ?k)) = rev (?t @ nbsps ?k)"
    by (metis takeWhile_dropWhile_id append_Nil)
  show "trimTrailingZeros (trimTrailingZeros s) = trimTrailingZeros s"
    unfolding trimTrailingZeros_closed [of s]
    unfolding trimTrailingZeros_closed [of "?t @ nbsps ?k"] tw dw
    by simp
qed

subsection \<open>The style vector builder\<close>

lemma forEachE_append:
  "forEachE f (xs @ ys) s = (case forEachE f xs s of Inl e \<Rightarrow> Inl e | Inr s' \<Rightarrow> forEachE f ys s')"
  by (induction xs arbitrary: s) (auto split: sum.splits)

lemma slotOf_length: "slotOf ''length'' = None"
  by (simp add: slotOf_def startsWith_def kindNames_def)

lemma styleBody_slotOf:
  "styleBody tag i st =
    (if tag = ''length'' \<and> length_s st \<noteq> 0 then Inl PropertyOnNumber
     else Inr (case slotOf tag of None \<Rightarrow> st | Some (k, v) \<Rightarrow> writeSlot st k i v))"
proof (cases "tag = ''length''")
  case True
  then show ?thesis
    by (simp add: styleBody_def slotOf_length startsWith_def kindNames_def)
next
  case False
  then show ?thesis
    by (auto simp: styleBody_def slotOf_def split: option.splits)
qed

lemma paint_empty: "b \<le> a \<Longrightarrow> paint tag a b st = st"
  by (cases st) (auto simp: paint_def fun_eq_iff)

lemma paint_step:
  "a \<le> b \<Longrightarrow>
   (case slotOf tag of None \<Rightarrow> paint tag a b st | Some (k, v) \<Rightarrow> writeSlot (paint tag a b st) k b v)
     = paint tag a (Suc b) st"
  by (cases st) (auto simp: paint_def writeSlot_def fun_eq_iff split: option.splits)

lemma length_s_paint [simp]: "length_s (paint tag a b st) = length_s st"
  by (simp add: paint_def)

lemma styleLoop_closed:
  "forEachE (styleBody tag) [a ..< b] st =
    (if tag = ''length'' \<and> length_s st \<noteq> 0 \<and> a < b then Inl PropertyOnNumber
     else Inr (paint tag a b st))"
proof (induction b)
  case 0
  show ?case by (simp add: paint_empty)
next
  case (Suc b)
  show ?case
  proof (cases "a \<le> b")
    case True
    then show ?thesis
      using Suc paint_step [of a b tag st]
      by (auto simp: forEachE_append styleBody_slotOf)
  next
    case False
    then show ?thesis by (simp add: paint_empty)
  qed
qed


lemma coveringRanges_Cons:
  "coveringRanges (r # rs) k i =
    (if map_option fst (slotOf (style r)) = Some k \<and> offset r \<le> i \<and> i < offset r + length_r r
     then r # coveringRanges rs k i else coveringRanges rs k i)"
  by (simp add: coveringRanges_def)

lemma coveringRanges_last:
  assumes "coveringRanges rs k i \<noteq> []"
  shows "map_option fst (slotOf (style (last (coveringRanges rs k i)))) = Some k"
proof -
  have "last (coveringRanges rs k i) \<in> set (coveringRanges rs k i)"
    using assms by (rule last_in_set)
  then show ?thesis by (simp add: coveringRanges_def)
qed

lemma lastWrite_None: "lastWrite rs k i = None \<longleftrightarrow> coveringRanges rs k i = []"
  using coveringRanges_last [of rs k i] by (auto simp: lastWrite_def)

lemma lastWrite_Nil [simp]: "lastWrite [] k i = None"
  by (simp add: lastWrite_def coveringRanges_def)

lemma lastWrite_Cons:
  "lastWrite (r # rs) k i =
    (case lastWrite rs k i of
       Some v \<Rightarrow> Some v
     | None \<Rightarrow>
        if map_option fst (slotOf (style r)) = Some k \<and> offset r \<le> i \<and> i < offset r + length_r r
        then map_option snd (slotOf (style r)) else None)"
proof (cases "coveringRanges rs k i = []")
  case True
  then have "lastWrite rs k i = None" by (simp add: lastWrite_None)
  with True show ?thesis by (auto simp: lastWrite_def coveringRanges_Cons)
next
  case False
  then obtain v where v: "lastWrite rs k i = Some v"
    using lastWrite_None [of rs k i] by (cases "lastWrite rs k i") auto
  have "lastWrite (r # rs) k i = lastWrite rs k i"
    using False by (simp add: lastWrite_def coveringRanges_Cons)
  with v show ?thesis by simp
qed

lemma styleRange_closed:
  "styleRange r st =
    (if writesOnLength r \<and> length_s st \<noteq> 0 then Inl PropertyOnNumber
     else Inr (paint (style r) (offset r) (offset r + length_r r) st))"
  by (auto simp: styleRange_def styleLoop_closed writesOnLength_def)

lemma styleRanges_closed:
  "forEachE styleRange rs st =
    (if length_s st \<noteq> 0 \<and> list_ex writesOnLength rs then Inl PropertyOnNumber
     else Inr (st\<lparr>vec := (\<lambda>k i. case lastWrite rs k i of None \<Rightarrow> vec st k i | Some v \<Rightarrow> Some v)\<rparr>))"
proof (induction rs arbitrary: st)
  case Nil
  show ?case by simp
next
  case (Cons r rs)
  show ?case
  proof (cases "writesOnLength r \<and> length_s st \<noteq> 0")
    case True
    then show ?thesis by (simp add: styleRange_closed)
  next
    case False
    let ?p = "paint (style r) (offset r) (offset r + length_r r) st"
    have vecs: "(\<lambda>k i. case lastWrite rs k i of None \<Rightarrow> vec ?p k i | Some v \<Rightarrow> Some v)
        = (\<lambda>k i. case lastWrite (r # rs) k i of None \<Rightarrow> vec st k i | Some v \<Rightarrow> Some v)"
      by (auto simp: fun_eq_iff lastWrite_Cons paint_def split: option.splits)
    have "forEachE styleRange (r # rs) st = forEachE styleRange rs ?p"
      using False by (auto simp: styleRange_closed)
    also have "\<dots> =
      (if length_s st \<noteq> 0 \<and> list_ex writesOnLength rs then Inl PropertyOnNumber
       else Inr (?p\<lparr>vec := (\<lambda>k i. case lastWrite rs k i of None \<Rightarrow> vec ?p k i | Some v \<Rightarrow> Some v)\<rparr>))"
      by (simp add: Cons.IH)
    also have "\<dots> =
      (if length_s st \<noteq> 0 \<and> list_ex writesOnLength (r # rs) then Inl PropertyOnNumber
       else Inr (st\<lparr>vec := (\<lambda>k i. case lastWrite (r # rs) k i of None \<Rightarrow> vec st k i | Some v \<Rightarrow> Some v)\<rparr>))"
      using False unfolding vecs by (auto simp: paint_def)
    finally show ?thesis .
  qed
qed

text \<open>
  C9. The builder throws only for a range tagged \<open>length\<close> with a write to make on a
  non-empty text, whatever the overlaps. Otherwise every slot holds the value of the last
  range, in input order, among the ranges of its kind that cover its offset, and is a
  hole when there is none.
\<close>

theorem style_vector_last_write_wins:
  "getStyleArrayForBlock b =
    (if text_b b \<noteq> [] \<and> list_ex writesOnLength (inlineStyleRanges b) then Inl PropertyOnNumber
     else Inr \<lparr>vec = (\<lambda>k i.
                  if coveringRanges (inlineStyleRanges b) k i = [] then None
                  else map_option snd
                         (slotOf (style (last (coveringRanges (inlineStyleRanges b) k i))))),
               length_s = length (text_b b)\<rparr>)"
proof -
  have same: "(\<lambda>k i. case lastWrite (inlineStyleRanges b) k i of
                  None \<Rightarrow> vec \<lparr>vec = (\<lambda>k. Map.empty), length_s = length (text_b b)\<rparr> k i
                | Some v \<Rightarrow> Some v)
      = lastWrite (inlineStyleRanges b)"
    by (auto simp: fun_eq_iff split: option.splits)
  have "getStyleArrayForBlock b =
    (if text_b b \<noteq> [] \<and> list_ex writesOnLength (inlineStyleRanges b) then Inl PropertyOnNumber
     else Inr \<lparr>vec = lastWrite (inlineStyleRanges b), length_s = length (text_b b)\<rparr>)"
    by (simp add: getStyleArrayForBlock_def styleRanges_closed same)
  then show ?thesis
    by (simp only: lastWrite_def [abs_def])
qed

subsection \<open>The run splitter\<close>

lemma fold_conj: "fold (\<lambda>k s. s \<and> P k) keys acc = (acc \<and> list_all P keys)"
  by (induction keys arbitrary: acc) auto

lemma sameStyleAsPrevious_iff:
  "sameStyleAsPrevious st keys i =
    (0 < i \<and> i < length_s st \<and> list_all (\<lambda>k. vec st k i = vec st k (i - 1)) keys)"
  by (simp add: sameStyleAsPrevious_def fold_conj)

lemma sectionBody_first:
  "sectionBody text st keys a a [] =
     Inr [\<lparr>start = a, end_s = a + 1, styles = getStylesAtOffset st a, text_s = [charAt text a]\<rparr>]"
  by (simp add: sectionBody_def)

lemma forEachE_snoc:
  "forEachE f (xs @ [x]) s = (case forEachE f xs s of Inl e \<Rightarrow> Inl e | Inr s' \<Rightarrow> f x s')"
  by (simp add: forEachE_append split: sum.splits)

lemma sectionBody_same:
  "i \<noteq> a \<Longrightarrow> sameStyleAsPrevious st keys i \<Longrightarrow> secs \<noteq> [] \<Longrightarrow>
   sectionBody text st keys a i secs =
     Inr (butlast secs @
       [(last secs)\<lparr>end_s := i + 1, text_s := text_s (last secs) @ [charAt text i]\<rparr>])"
  by (simp add: sectionBody_def)

lemma sectionBody_new:
  "i = a \<or> \<not> sameStyleAsPrevious st keys i \<Longrightarrow>
   sectionBody text st keys a i secs =
     Inr (secs @
       [\<lparr>start = i, end_s = i + 1, styles = getStylesAtOffset st i, text_s = [charAt text i]\<rparr>])"
  by (auto simp: sectionBody_def)

lemma sections_loop:
  "a < e \<Longrightarrow>
   \<exists>secs. forEachE (sectionBody text st keys a) [a ..< e] [] = Inr secs \<and> secs \<noteq> []
     \<and> map start secs = filter (\<lambda>i. i = a \<or> \<not> sameStyleAsPrevious st keys i) [a ..< e]"
proof (induction e)
  case 0
  then show ?case by simp
next
  case (Suc e)
  show ?case
  proof (cases "a = e")
    case True
    then show ?thesis by (simp add: sectionBody_first)
  next
    case False
    with Suc.prems have lt: "a < e" by simp
    from Suc.IH [OF lt] obtain secs where
      run: "forEachE (sectionBody text st keys a) [a ..< e] [] = Inr secs" and
      ne: "secs \<noteq> []" and
      starts: "map start secs = filter (\<lambda>i. i = a \<or> \<not> sameStyleAsPrevious st keys i) [a ..< e]"
      by blast
    have step: "forEachE (sectionBody text st keys a) [a ..< Suc e] [] =
        sectionBody text st keys a e secs"
      using lt run by (simp add: forEachE_snoc)
    show ?thesis
    proof (cases "sameStyleAsPrevious st keys e")
      case True
      let ?secs' = "butlast secs @
          [(last secs)\<lparr>end_s := e + 1, text_s := text_s (last secs) @ [charAt text e]\<rparr>]"
      have "sectionBody text st keys a e secs = Inr ?secs'"
        using True False ne by (simp add: sectionBody_same)
      moreover have "map start ?secs' = map start (butlast secs @ [last secs])"
        by simp
      then have "map start ?secs' = map start secs"
        using ne by simp
      ultimately show ?thesis
        using True False starts lt step by simp
    next
      case nsame: False
      then have "sectionBody text st keys a e secs = Inr (secs @
          [\<lparr>start = e, end_s = e + 1, styles = getStylesAtOffset st e, text_s = [charAt text e]\<rparr>])"
        by (simp add: sectionBody_new)
      then show ?thesis
        using nsame starts lt step by simp
    qed
  qed
qed

lemma run_from:
  "a \<le> m \<Longrightarrow> m < e \<Longrightarrow> m = a \<or> \<not> sameStyleAsPrevious st keys m \<Longrightarrow>
   (\<forall>i. m < i \<and> i < e \<longrightarrow> sameStyleAsPrevious st keys i) \<Longrightarrow>
   forEachE (sectionBody text st keys a) [m ..< e] acc =
     Inr (acc @ [\<lparr>start = m, end_s = e, styles = getStylesAtOffset st m,
                 text_s = map (charAt text) [m ..< e]\<rparr>])"
proof (induction e)
  case 0
  then show ?case by simp
next
  case (Suc e)
  show ?case
  proof (cases "m = e")
    case True
    then show ?thesis
      using Suc.prems(3) by (simp add: sectionBody_new)
  next
    case False
    with Suc.prems have lt: "m < e" by simp
    let ?s = "\<lparr>start = m, end_s = e, styles = getStylesAtOffset st m,
            text_s = map (charAt text) [m ..< e]\<rparr>"
    have run: "forEachE (sectionBody text st keys a) [m ..< e] acc = Inr (acc @ [?s])"
      using Suc.prems lt by (intro Suc.IH) auto
    have same: "sameStyleAsPrevious st keys e"
      using Suc.prems lt by simp
    have ne: "e \<noteq> a"
      using Suc.prems(1) lt by simp
    have "forEachE (sectionBody text st keys a) [m ..< Suc e] acc =
        sectionBody text st keys a e (acc @ [?s])"
      using lt run by (simp add: forEachE_snoc)
    also have "\<dots> = Inr (acc @ [\<lparr>start = m, end_s = Suc e, styles = getStylesAtOffset st m,
          text_s = map (charAt text) [m ..< Suc e]\<rparr>])"
      using same ne lt by (simp add: sectionBody_same)
    finally show ?thesis .
  qed
qed

lemma upt_split: "a \<le> m \<Longrightarrow> m \<le> e \<Longrightarrow> [a ..< e] = [a ..< m] @ [m ..< e]"
  by (metis le_Suc_ex upt_add_eq_append)

lemma slotOf_BOLD: "slotOf ''BOLD'' = Some (BOLD, Flag)"
  by (simp add: slotOf_def startsWith_def kindNames_def)

lemma slotOf_ITALIC: "slotOf ''ITALIC'' = Some (ITALIC, Flag)"
  by (simp add: slotOf_def startsWith_def kindNames_def)

lemma bold_italic_vectors:
  assumes "rs = [\<lparr>offset = 0, length_r = 5, style = ''BOLD''\<rparr>,
                 \<lparr>offset = 2, length_r = 5, style = ''ITALIC''\<rparr>]
         \<or> rs = [\<lparr>offset = 2, length_r = 5, style = ''ITALIC''\<rparr>,
                 \<lparr>offset = 0, length_r = 5, style = ''BOLD''\<rparr>]"
  shows "lastWrite rs k i =
    (if k = BOLD \<and> i < 5 \<or> k = ITALIC \<and> 2 \<le> i \<and> i < 7 then Some Flag else None)"
  using assms
proof
  assume "rs = [\<lparr>offset = 0, length_r = 5, style = ''BOLD''\<rparr>,
                 \<lparr>offset = 2, length_r = 5, style = ''ITALIC''\<rparr>]"
  then show ?thesis
    by (simp add: lastWrite_def coveringRanges_def slotOf_BOLD slotOf_ITALIC)
next
  assume "rs = [\<lparr>offset = 2, length_r = 5, style = ''ITALIC''\<rparr>,
                 \<lparr>offset = 0, length_r = 5, style = ''BOLD''\<rparr>]"
  then show ?thesis
    by (simp add: lastWrite_def coveringRanges_def slotOf_BOLD slotOf_ITALIC)
qed

lemma getStyleSections_ok:
  "getStyleArrayForBlock b = Inr st \<Longrightarrow> text_b b \<noteq> [] \<Longrightarrow>
   getStyleSections b keys a e = forEachE (sectionBody (text_b b) st keys a) [a ..< e] []"
  by (simp add: getStyleSections_def)

lemma getStyleArrayForBlock_ok:
  "\<not> list_ex writesOnLength (inlineStyleRanges b) \<Longrightarrow>
   getStyleArrayForBlock b =
     Inr \<lparr>vec = lastWrite (inlineStyleRanges b), length_s = length (text_b b)\<rparr>"
proof -
  have same: "(\<lambda>k i. case lastWrite (inlineStyleRanges b) k i of
                  None \<Rightarrow> vec \<lparr>vec = (\<lambda>k. Map.empty), length_s = length (text_b b)\<rparr> k i
                | Some v \<Rightarrow> Some v)
      = lastWrite (inlineStyleRanges b)"
    by (auto simp: fun_eq_iff split: option.splits)
  assume "\<not> list_ex writesOnLength (inlineStyleRanges b)"
  then show ?thesis
    by (simp add: getStyleArrayForBlock_def styleRanges_closed same)
qed


lemma upt_0_2: "[0 ..< 2] = [0, 1::nat]"
  by code_simp

lemma upt_0_7: "[0 ..< 7] = [0, 1, 2, 3, 4, 5, 6::nat]"
  by code_simp

lemma bold_italic_runs:
  assumes len: "7 \<le> length (text_b b)"
    and rs: "inlineStyleRanges b = [\<lparr>offset = 0, length_r = 5, style = ''BOLD''\<rparr>,
                 \<lparr>offset = 2, length_r = 5, style = ''ITALIC''\<rparr>]
         \<or> inlineStyleRanges b = [\<lparr>offset = 2, length_r = 5, style = ''ITALIC''\<rparr>,
                 \<lparr>offset = 0, length_r = 5, style = ''BOLD''\<rparr>]"
  shows "getStyleSections b [BOLD, ITALIC, UNDERLINE, STRIKETHROUGH, CODE, SUPERSCRIPT, SUBSCRIPT] 0 7 =
    Inr [\<lparr>start = 0, end_s = 2, styles = [(''BOLD'', Flag)],
          text_s = [Some (text_b b ! 0), Some (text_b b ! 1)]\<rparr>,
         \<lparr>start = 2, end_s = 5, styles = [(''ITALIC'', Flag), (''BOLD'', Flag)],
          text_s = [Some (text_b b ! 2), Some (text_b b ! 3), Some (text_b b ! 4)]\<rparr>,
         \<lparr>start = 5, end_s = 7, styles = [(''ITALIC'', Flag)],
          text_s = [Some (text_b b ! 5), Some (text_b b ! 6)]\<rparr>]"
proof -
  define st where "st = \<lparr>vec = lastWrite (inlineStyleRanges b), length_s = length (text_b b)\<rparr>"
  define keys where "keys = [BOLD, ITALIC, UNDERLINE, STRIKETHROUGH, CODE, SUPERSCRIPT, SUBSCRIPT]"
  define f where "f = sectionBody (text_b b) st keys 0"
  have nothrow: "\<not> list_ex writesOnLength (inlineStyleRanges b)"
    using rs by (auto simp: writesOnLength_def)
  have st: "getStyleArrayForBlock b = Inr st"
    unfolding st_def using nothrow by (rule getStyleArrayForBlock_ok)
  have v: "vec st k i =
    (if k = BOLD \<and> i < 5 \<or> k = ITALIC \<and> 2 \<le> i \<and> i < 7 then Some Flag else None)" for k i
    using bold_italic_vectors [OF rs] by (simp add: st_def)
  have l: "length_s st = length (text_b b)" by (simp add: st_def)
  have same: "sameStyleAsPrevious st keys i = (0 < i \<and> i \<noteq> 2 \<and> i \<noteq> 5)" if "i < 7" for i
    using that len by (auto simp: sameStyleAsPrevious_iff v l keys_def)
  have g0: "getStylesAtOffset st 0 = [(''BOLD'', Flag)]"
    and g2: "getStylesAtOffset st 2 = [(''ITALIC'', Flag), (''BOLD'', Flag)]"
    and g5: "getStylesAtOffset st 5 = [(''ITALIC'', Flag)]"
    by (simp_all add: getStylesAtOffset_def flagEntry_def v)
  have t0: "map (charAt (text_b b)) [0 ..< 2] = [Some (text_b b ! 0), Some (text_b b ! 1)]"
    and t2: "map (charAt (text_b b)) [2 ..< 5] =
      [Some (text_b b ! 2), Some (text_b b ! 3), Some (text_b b ! 4)]"
    and t5: "map (charAt (text_b b)) [5 ..< 7] = [Some (text_b b ! 5), Some (text_b b ! 6)]"
    using len by (auto simp: charAt_def upt_0_2)
  have r0: "forEachE f [0 ..< 2] acc = Inr (acc @ [\<lparr>start = 0, end_s = 2,
      styles = getStylesAtOffset st 0, text_s = map (charAt (text_b b)) [0 ..< 2]\<rparr>])" for acc
    unfolding f_def using len by (intro run_from) (auto simp: same)
  have r2: "forEachE f [2 ..< 5] acc = Inr (acc @ [\<lparr>start = 2, end_s = 5,
      styles = getStylesAtOffset st 2, text_s = map (charAt (text_b b)) [2 ..< 5]\<rparr>])" for acc
    unfolding f_def using len by (intro run_from) (auto simp: same)
  have r5: "forEachE f [5 ..< 7] acc = Inr (acc @ [\<lparr>start = 5, end_s = 7,
      styles = getStylesAtOffset st 5, text_s = map (charAt (text_b b)) [5 ..< 7]\<rparr>])" for acc
    unfolding f_def using len by (intro run_from) (auto simp: same)
  have split: "[0 ..< 7] = [0 ..< 2] @ [2 ..< 5] @ [5 ..< (7::nat)]"
    using upt_split [of 0 2 7] upt_split [of 2 5 7] by simp
  have "text_b b \<noteq> []" using len by auto
  then have "getStyleSections b keys 0 7 = forEachE f [0 ..< 7] []"
    unfolding f_def using st by (rule getStyleSections_ok [rotated])
  also have "\<dots> = Inr [\<lparr>start = 0, end_s = 2, styles = getStylesAtOffset st 0,
        text_s = map (charAt (text_b b)) [0 ..< 2]\<rparr>,
      \<lparr>start = 2, end_s = 5, styles = getStylesAtOffset st 2,
        text_s = map (charAt (text_b b)) [2 ..< 5]\<rparr>,
      \<lparr>start = 5, end_s = 7, styles = getStylesAtOffset st 5,
        text_s = map (charAt (text_b b)) [5 ..< 7]\<rparr>]"
    unfolding split by (simp only: forEachE_append r0 r2 r5 sum.case append_Nil append_Cons)
  finally show ?thesis
    unfolding keys_def g0 g2 g5 t0 t2 t5 .
qed


lemma getStyleArrayForBlock_length:
  "getStyleArrayForBlock b = Inr st \<Longrightarrow> length_s st = length (text_b b)"
  by (auto simp: getStyleArrayForBlock_def styleRanges_closed split: if_splits)

lemma run_starts:
  assumes st: "getStyleArrayForBlock b = Inr st" and e: "e \<le> length (text_b b)"
  shows "\<exists>secs. getStyleSections b keys a e = Inr secs
    \<and> map start secs =
        filter (\<lambda>i. i = a \<or> list_ex (\<lambda>k. vec st k i \<noteq> vec st k (i - 1)) keys) [a ..< e]"
proof (cases "a < e")
  case False
  then show ?thesis
    using st by (simp add: getStyleSections_def)
next
  case True
  with e have ne: "text_b b \<noteq> []" by auto
  from sections_loop [OF True, of "text_b b" st keys] obtain secs where
    run: "forEachE (sectionBody (text_b b) st keys a) [a ..< e] [] = Inr secs" and
    starts: "map start secs = filter (\<lambda>i. i = a \<or> \<not> sameStyleAsPrevious st keys i) [a ..< e]"
    by blast
  have "filter (\<lambda>i. i = a \<or> \<not> sameStyleAsPrevious st keys i) [a ..< e] =
      filter (\<lambda>i. i = a \<or> list_ex (\<lambda>k. vec st k i \<noteq> vec st k (i - 1)) keys) [a ..< e]"
    using e getStyleArrayForBlock_length [OF st]
    by (intro filter_cong) (auto simp: sameStyleAsPrevious_iff list_all_iff list_ex_iff)
  with run starts show ?thesis
    by (simp add: getStyleSections_ok [OF st ne])
qed

text \<open>
  C6. For a text of at least 7 characters with \<open>BOLD\<close> over \<open>[0, 5)\<close> and \<open>ITALIC\<close> over
  \<open>[2, 7)\<close>, in either input order and no other style range, the split of \<open>[0, 7)\<close> over
  the seven toggle keys returns exactly the runs \<open>[0, 2)\<close>, \<open>[2, 5)\<close>, \<open>[5, 7)\<close> with the
  styles \<open>BOLD\<close>; \<open>ITALIC\<close> and \<open>BOLD\<close>; \<open>ITALIC\<close>. In general, for a range within the
  text, the split returns, and the starts of its runs are exactly the positions \<open>i\<close> of
  the range that are its start or at which some selected key has another value than at
  \<open>i - 1\<close>.
\<close>

theorem toggle_run_split:
  "(7 \<le> length (text_b b)
     \<and> (inlineStyleRanges b = [\<lparr>offset = 0, length_r = 5, style = ''BOLD''\<rparr>,
                               \<lparr>offset = 2, length_r = 5, style = ''ITALIC''\<rparr>]
        \<or> inlineStyleRanges b = [\<lparr>offset = 2, length_r = 5, style = ''ITALIC''\<rparr>,
                                  \<lparr>offset = 0, length_r = 5, style = ''BOLD''\<rparr>])
    \<longrightarrow> getStyleSections b [BOLD, ITALIC, UNDERLINE, STRIKETHROUGH, CODE, SUPERSCRIPT, SUBSCRIPT] 0 7 =
        Inr [\<lparr>start = 0, end_s = 2, styles = [(''BOLD'', Flag)],
              text_s = [Some (text_b b ! 0), Some (text_b b ! 1)]\<rparr>,
             \<lparr>start = 2, end_s = 5, styles = [(''ITALIC'', Flag), (''BOLD'', Flag)],
              text_s = [Some (text_b b ! 2), Some (text_b b ! 3), Some (text_b b ! 4)]\<rparr>,
             \<lparr>start = 5, end_s = 7, styles = [(''ITALIC'', Flag)],
              text_s = [Some (text_b b ! 5), Some (text_b b ! 6)]\<rparr>])
   \<and> (getStyleArrayForBlock b = Inr st \<and> e \<le> length (text_b b)
    \<longrightarrow> (\<exists>secs. getStyleSections b keys a e = Inr secs
          \<and> map start secs =
              filter (\<lambda>i. i = a \<or> list_ex (\<lambda>k. vec st k i \<noteq> vec st k (i - 1)) keys)
                [a ..< e]))"
  using bold_italic_runs [of b] run_starts [of b st e keys a] by blast

theorem toggle_run_split_witness:
  "7 \<le> length (text_b \<lparr>type_b = ''unstyled'', text_b = ''abcdefg'',
         inlineStyleRanges = [\<lparr>offset = 0, length_r = 5, style = ''BOLD''\<rparr>,
                              \<lparr>offset = 2, length_r = 5, style = ''ITALIC''\<rparr>],
         entityRanges = [], data = None\<rparr>)
   \<and> getStyleSections \<lparr>type_b = ''unstyled'', text_b = ''abcdefg'',
         inlineStyleRanges = [\<lparr>offset = 0, length_r = 5, style = ''BOLD''\<rparr>,
                              \<lparr>offset = 2, length_r = 5, style = ''ITALIC''\<rparr>],
         entityRanges = [], data = None\<rparr>
        [BOLD, ITALIC, UNDERLINE, STRIKETHROUGH, CODE, SUPERSCRIPT, SUBSCRIPT] 0 7 =
        Inr [\<lparr>start = 0, end_s = 2, styles = [(''BOLD'', Flag)],
              text_s = [Some (CHR ''a''), Some (CHR ''b'')]\<rparr>,
             \<lparr>start = 2, end_s = 5, styles = [(''ITALIC'', Flag), (''BOLD'', Flag)],
              text_s = [Some (CHR ''c''), Some (CHR ''d''), Some (CHR ''e'')]\<rparr>,
             \<lparr>start = 5, end_s = 7, styles = [(''ITALIC'', Flag)],
              text_s = [Some (CHR ''f''), Some (CHR ''g'')]\<rparr>]
   \<and> getStyleArrayForBlock \<lparr>type_b = ''unstyled'', text_b = ''abcdefg'',
         inlineStyleRanges = [\<lparr>offset = 0, length_r = 5, style = ''BOLD''\<rparr>,
                              \<lparr>offset = 2, length_r = 5, style = ''ITALIC''\<rparr>],
         entityRanges = [], data = None\<rparr> =
       Inr \<lparr>vec = lastWrite [\<lparr>offset = 0, length_r = 5, style = ''BOLD''\<rparr>,
                               \<lparr>offset = 2, length_r = 5, style = ''ITALIC''\<rparr>],
            length_s = 7\<rparr>
   \<and> (\<exists>secs. getStyleSections \<lparr>type_b = ''unstyled'', text_b = ''abcdefg'',
         inlineStyleRanges = [\<lparr>offset = 0, length_r = 5, style = ''BOLD''\<rparr>,
                              \<lparr>offset = 2, length_r = 5, style = ''ITALIC''\<rparr>],
         entityRanges = [], data = None\<rparr> [BOLD] 0 7 = Inr secs
        \<and> map start secs = [0, 5])"
proof -
  let ?rs = "[\<lparr>offset = 0, length_r = 5, style = ''BOLD''\<rparr>,
              \<lparr>offset = 2, length_r = 5, style = ''ITALIC''\<rparr>]"
  let ?b = "\<lparr>type_b = ''unstyled'', text_b = ''abcdefg'', inlineStyleRanges = ?rs,
             entityRanges = [], data = None\<rparr>"
  let ?st = "\<lparr>vec = lastWrite ?rs, length_s = 7\<rparr>"
  have len: "7 \<le> length (text_b ?b)" by simp
  have rs: "inlineStyleRanges ?b = ?rs" by simp
  have st: "getStyleArrayForBlock ?b = Inr ?st"
    using getStyleArrayForBlock_ok [of ?b] by (simp add: writesOnLength_def)
  have starts: "filter (\<lambda>i. i = 0 \<or> list_ex (\<lambda>k. vec ?st k i \<noteq> vec ?st k (i - 1)) [BOLD])
      [0 ..< 7] = [0, 5]"
    by (simp add: upt_0_7 bold_italic_vectors [of ?rs])
  note inst = toggle_run_split [of ?b ?st 7 "[BOLD]" 0]
  from inst len rs have
    "getStyleSections ?b [BOLD, ITALIC, UNDERLINE, STRIKETHROUGH, CODE, SUPERSCRIPT, SUBSCRIPT] 0 7 =
        Inr [\<lparr>start = 0, end_s = 2, styles = [(''BOLD'', Flag)],
              text_s = [Some (text_b ?b ! 0), Some (text_b ?b ! 1)]\<rparr>,
             \<lparr>start = 2, end_s = 5, styles = [(''ITALIC'', Flag), (''BOLD'', Flag)],
              text_s = [Some (text_b ?b ! 2), Some (text_b ?b ! 3), Some (text_b ?b ! 4)]\<rparr>,
             \<lparr>start = 5, end_s = 7, styles = [(''ITALIC'', Flag)],
              text_s = [Some (text_b ?b ! 5), Some (text_b ?b ! 6)]\<rparr>]"
    by blast
  moreover from inst st len have "\<exists>secs. getStyleSections ?b [BOLD] 0 7 = Inr secs
          \<and> map start secs =
              filter (\<lambda>i. i = 0 \<or> list_ex (\<lambda>k. vec ?st k i \<noteq> vec ?st k (i - 1)) [BOLD])
                [0 ..< 7]"
    by simp
  ultimately show ?thesis
    using st unfolding starts by simp
qed

subsection \<open>Blocks without styles and entities\<close>

lemma plain_vectors:
  "inlineStyleRanges b = [] \<Longrightarrow>
   getStyleArrayForBlock b = Inr \<lparr>vec = (\<lambda>k. Map.empty), length_s = length (text_b b)\<rparr>"
  by (simp add: getStyleArrayForBlock_def)

lemma plain_styles: "getStylesAtOffset \<lparr>vec = (\<lambda>k. Map.empty), length_s = n\<rparr> i = []"
  by (simp add: getStylesAtOffset_def flagEntry_def)

lemma plain_same:
  "sameStyleAsPrevious \<lparr>vec = (\<lambda>k. Map.empty), length_s = n\<rparr> keys i = (0 < i \<and> i < n)"
  by (simp add: sameStyleAsPrevious_iff list_all_iff)

lemma plain_sections:
  assumes "inlineStyleRanges b = []" and "a < e" and "e \<le> length (text_b b)"
  shows "getStyleSections b keys a e =
    Inr [\<lparr>start = a, end_s = e, styles = [], text_s = map (charAt (text_b b)) [a ..< e]\<rparr>]"
proof -
  let ?st = "\<lparr>vec = (\<lambda>k. Map.empty), length_s = length (text_b b)\<rparr>"
  have ne: "text_b b \<noteq> []" using assms by auto
  have "forEachE (sectionBody (text_b b) ?st keys a) [a ..< e] [] =
     Inr ([] @ [\<lparr>start = a, end_s = e, styles = getStylesAtOffset ?st a,
                 text_s = map (charAt (text_b b)) [a ..< e]\<rparr>])"
    using assms by (intro run_from) (auto simp: plain_same)
  then show ?thesis
    using getStyleSections_ok [OF plain_vectors [OF assms(1)] ne, of keys a e]
    by (simp add: plain_styles)
qed

lemma charAt_upt: "map (charAt t) [0 ..< length t] = map Some t"
  by (rule nth_equalityI) (simp_all add: charAt_def)

lemma escapeChar_Some: "escapeChar (Some c) = Some (escapeSpec c)"
  by (simp add: escapeChar_def escapeSpec_def)

lemma join_escapeChar: "join (map escapeChar (map Some t)) = concat (map escapeSpec t)"
  by (induction t) (simp_all add: join_def escapeChar_Some)

lemma getSectionText_Some: "getSectionText (map Some t) = concat (map escapeSpec t)"
  using join_escapeChar [of t] by (cases t) (simp_all add: getSectionText_def)

lemma plain_property_markdown:
  "addStylePropertyMarkdown \<lparr>start = a, end_s = e, styles = [], text_s = ts\<rparr> = getSectionText ts"
  by (simp add: addStylePropertyMarkdown_def)

lemma plain_tag_markdown: "getStyleTagSectionMarkdown [] t = t"
  by (simp add: getStyleTagSectionMarkdown_def forEach_def)

lemma plain_section_markdown:
  assumes "inlineStyleRanges b = []" and "0 < length (text_b b)"
  shows "getEntitySectionMarkdown b em
      \<lparr>start = 0, end_s = length (text_b b), entityKey = None\<rparr> =
    Inr (Some (concat (map escapeSpec (text_b b))))"
proof -
  let ?n = "length (text_b b)"
  let ?sec = "\<lparr>start = 0, end_s = ?n, styles = [], text_s = map Some (text_b b)\<rparr>"
  have runs: "getStyleSections b keys 0 ?n = Inr [?sec]" for keys
    using plain_sections [OF assms(1), of 0 ?n keys] assms(2) by (simp add: charAt_upt)
  have "styleSectionBody b ?sec [] = Inr (concat (map escapeSpec (text_b b)))"
    by (simp add: styleSectionBody_def runs plain_property_markdown plain_tag_markdown
        getSectionText_Some)
  then show ?thesis
    by (simp add: getEntitySectionMarkdown_def runs join_def)
qed

lemma trims_Nil [simp]: "trimLeadingZeros [] = []" "trimTrailingZeros [] = []"
  by (simp_all add: trimLeadingZeros_def trimTrailingZeros_def)

lemma plain_content:
  assumes "inlineStyleRanges b = []" and "entityRanges b = []"
  shows "getBlockContentMarkdown b em =
    Inr (Some (trimTrailingZeros (trimLeadingZeros (concat (map escapeSpec (text_b b))))))"
proof (cases "text_b b = []")
  case True
  then show ?thesis
    using assms by (simp add: getBlockContentMarkdown_def isAtomicBlock_def getEntitySections_def join_def)
next
  case False
  then have pos: "0 < length (text_b b)" by simp
  have secs: "getEntitySections [] (length (text_b b)) =
      [\<lparr>start = 0, end_s = length (text_b b), entityKey = None\<rparr>]"
    using pos by (simp add: getEntitySections_def)
  show ?thesis
    using assms
    by (simp add: getBlockContentMarkdown_def isAtomicBlock_def secs contentBody_def
        plain_section_markdown [OF assms(1) pos] join_def)
qed

lemma getBlockStyle_Nil: "getBlockStyle [] = []"
  by (simp add: getBlockStyle_def forEach_def)


lemma escape_spaces: "list_all isSpace xs \<Longrightarrow> concat (map escapeSpec xs) = xs"
  by (induction xs) (simp_all add: escapeSpec_def isSpace_def)

lemma escapeSpec_hd: "\<not> isSpace c \<Longrightarrow> escapeSpec c \<noteq> [] \<and> \<not> isSpace (hd (escapeSpec c))"
  by (simp add: escapeSpec_def isSpace_def)

lemma escapeSpec_last: "\<not> isSpace c \<Longrightarrow> escapeSpec c \<noteq> [] \<and> \<not> isSpace (last (escapeSpec c))"
  by (simp add: escapeSpec_def isSpace_def)

lemma escape_hd:
  "r \<noteq> [] \<Longrightarrow> \<not> isSpace (hd r) \<Longrightarrow>
   concat (map escapeSpec r) \<noteq> [] \<and> \<not> isSpace (hd (concat (map escapeSpec r)))"
  using escapeSpec_hd [of "hd r"] by (cases r) auto

lemma escape_last:
  "r \<noteq> [] \<Longrightarrow> \<not> isSpace (last r) \<Longrightarrow>
   concat (map escapeSpec r) \<noteq> [] \<and> \<not> isSpace (last (concat (map escapeSpec r)))"
  using escapeSpec_last [of "last r"] by (cases r rule: rev_cases) auto

lemma takeWhile_none:
  "u = [] \<or> \<not> isSpace (hd u) \<Longrightarrow> takeWhile isSpace u = [] \<and> dropWhile isSpace u = u"
  by (cases u) auto

lemma takeWhile_spaces: "list_all isSpace sp \<Longrightarrow> u = [] \<or> \<not> isSpace (hd u) \<Longrightarrow>
  takeWhile isSpace (sp @ u) = sp \<and> dropWhile isSpace (sp @ u) = u"
  by (induction sp) (simp_all add: takeWhile_none)

lemma trimLeadingZeros_spaces:
  "list_all isSpace sp \<Longrightarrow> u = [] \<or> \<not> isSpace (hd u) \<Longrightarrow>
   trimLeadingZeros (sp @ u) = nbsps (length sp) @ u"
  by (simp add: trimLeadingZeros_closed takeWhile_spaces)

lemma trimTrailingZeros_spaces:
  assumes "list_all isSpace sp" and "u = [] \<or> \<not> isSpace (last u)"
  shows "trimTrailingZeros (u @ sp) = u @ nbsps (length sp)"
proof -
  have "list_all isSpace (rev sp)" using assms(1) by (simp add: list_all_iff)
  moreover have "rev u = [] \<or> \<not> isSpace (hd (rev u))"
    using assms(2) by (auto simp: hd_rev)
  ultimately have "takeWhile isSpace (rev sp @ rev u) = rev sp
      \<and> dropWhile isSpace (rev sp @ rev u) = rev u"
    by (rule takeWhile_spaces)
  then show ?thesis
    by (simp add: trimTrailingZeros_closed)
qed

lemma nbsps_last: "0 < k \<Longrightarrow> nbsps k \<noteq> [] \<and> \<not> isSpace (last (nbsps k))"
  by (cases k) (simp_all add: nbsps_Suc_right)

lemma trimmed_escape:
  "trimTrailingZeros (trimLeadingZeros (concat (map escapeSpec t))) =
     nbsps (leadingSpaces t) @ concat (map escapeSpec (stripSpaces t))
     @ nbsps (trailingSpaces (dropWhile isSpace t))"
proof -
  define sp1 where "sp1 = takeWhile isSpace t"
  define r where "r = dropWhile isSpace t"
  define sp2 where "sp2 = rev (takeWhile isSpace (rev r))"
  define core where "core = rev (dropWhile isSpace (rev r))"
  have t: "t = sp1 @ r" by (simp add: sp1_def r_def)
  have r: "r = core @ sp2"
    by (simp add: core_def sp2_def flip: rev_append)
  have a1: "list_all isSpace sp1"
    by (auto simp: sp1_def list_all_iff dest: set_takeWhileD)
  have a2: "list_all isSpace sp2"
    by (auto simp: sp2_def list_all_iff dest: set_takeWhileD)
  have rhd: "r = [] \<or> \<not> isSpace (hd r)"
    unfolding r_def using hd_dropWhile [of isSpace t] by blast
  have clast: "core = [] \<or> \<not> isSpace (last core)"
    unfolding core_def using hd_dropWhile [of isSpace "rev r"] by (auto simp: last_rev)
  have esc: "concat (map escapeSpec t) = sp1 @ concat (map escapeSpec core) @ sp2"
    by (simp add: t r escape_spaces [OF a1] escape_spaces [OF a2])
  have uhd: "concat (map escapeSpec core) @ sp2 = []
      \<or> \<not> isSpace (hd (concat (map escapeSpec core) @ sp2))"
  proof (cases "core = []")
    case True
    with r rhd a2 show ?thesis by (cases sp2) auto
  next
    case False
    with r rhd have "\<not> isSpace (hd core)" by (cases core) auto
    with False show ?thesis using escape_hd [of core] by auto
  qed
  have ulast: "nbsps (length sp1) @ concat (map escapeSpec core) = []
      \<or> \<not> isSpace (last (nbsps (length sp1) @ concat (map escapeSpec core)))"
  proof (cases "core = []")
    case True
    then show ?thesis using nbsps_last [of "length sp1"] by (cases "length sp1 = 0") auto
  next
    case False
    with clast show ?thesis using escape_last [of core] by auto
  qed
  have "trimLeadingZeros (concat (map escapeSpec t)) =
      nbsps (length sp1) @ concat (map escapeSpec core) @ sp2"
    unfolding esc using a1 uhd by (rule trimLeadingZeros_spaces)
  then have "trimTrailingZeros (trimLeadingZeros (concat (map escapeSpec t))) =
      trimTrailingZeros ((nbsps (length sp1) @ concat (map escapeSpec core)) @ sp2)"
    by simp
  also have "\<dots> = (nbsps (length sp1) @ concat (map escapeSpec core)) @ nbsps (length sp2)"
    using a2 ulast by (rule trimTrailingZeros_spaces)
  finally show ?thesis
    by (simp add: leadingSpaces_def trailingSpaces_def stripSpaces_def sp1_def sp2_def
        core_def r_def)
qed

lemma plain_block:
  assumes "inlineStyleRanges b = []" and "entityRanges b = []"
    and "data b = None \<or> data b = Some []"
  shows "getBlockMarkdown b em =
     Inr (blockPrefix b
          @ trimTrailingZeros (trimLeadingZeros (concat (map escapeSpec (text_b b))))
          @ [CHR 0x0A])"
  using assms(3)
  by (auto simp: getBlockMarkdown_def plain_content [OF assms(1,2)] getBlockStyleProperty_def
      getBlockStyle_Nil join_def blockPrefix_def split: option.splits)

text \<open>
  C8, as amended. A block with no inline-style ranges, no entity ranges and no block-level
  style data (none, or an empty object) renders as its prefix, then its text escaped
  character by character with every leading and every trailing space replaced by
  \<open>&nbsp;\<close>, then the line terminator.
\<close>

theorem plain_block_markdown:
  "inlineStyleRanges b = [] \<and> entityRanges b = [] \<and> (data b = None \<or> data b = Some [])
   \<longrightarrow> getBlockMarkdown b em =
     Inr (blockPrefix b
          @ nbsps (leadingSpaces (text_b b))
          @ concat (map escapeSpec (stripSpaces (text_b b)))
          @ nbsps (trailingSpaces (dropWhile isSpace (text_b b)))
          @ [CHR 0x0A])"
  using plain_block [of b em] by (simp add: trimmed_escape)


theorem plain_block_markdown_witness:
  "inlineStyleRanges \<lparr>type_b = ''header-one'', text_b = '' a<b '', inlineStyleRanges = [],
       entityRanges = [], data = None\<rparr> = []
   \<and> entityRanges \<lparr>type_b = ''header-one'', text_b = '' a<b '', inlineStyleRanges = [],
       entityRanges = [], data = None\<rparr> = []
   \<and> data \<lparr>type_b = ''header-one'', text_b = '' a<b '', inlineStyleRanges = [],
       entityRanges = [], data = None\<rparr> = None
   \<and> getBlockMarkdown \<lparr>type_b = ''header-one'', text_b = '' a<b '', inlineStyleRanges = [],
       entityRanges = [], data = None\<rparr> Map.empty
      = Inr (''# &nbsp;a&lt;b&nbsp;'' @ [CHR 0x0A])"
proof -
  let ?b = "\<lparr>type_b = ''header-one'', text_b = '' a<b '', inlineStyleRanges = [],
       entityRanges = [], data = None\<rparr>"
  have rhs: "blockPrefix ?b
          @ nbsps (leadingSpaces (text_b ?b))
          @ concat (map escapeSpec (stripSpaces (text_b ?b)))
          @ nbsps (trailingSpaces (dropWhile isSpace (text_b ?b)))
          @ [CHR 0x0A] = ''# &nbsp;a&lt;b&nbsp;'' @ [CHR 0x0A]"
    by code_simp
  have "getBlockMarkdown ?b Map.empty = Inr (blockPrefix ?b
          @ nbsps (leadingSpaces (text_b ?b))
          @ concat (map escapeSpec (stripSpaces (text_b ?b)))
          @ nbsps (trailingSpaces (dropWhile isSpace (text_b ?b)))
          @ [CHR 0x0A])"
    using plain_block_markdown [of ?b Map.empty] by simp
  then show ?thesis
    unfolding rhs by simp
qed

text \<open>
  C8, as stated, fails: a leading space is rendered as \<open>&nbsp;\<close>, and block-level style
  data wraps the content in a \<open>span\<close>.
\<close>

theorem plain_block_counterexample:
  "getBlockMarkdown \<lparr>type_b = ''unstyled'', text_b = '' a'', inlineStyleRanges = [],
       entityRanges = [], data = None\<rparr> Map.empty
     = Inr (''&nbsp;a'' @ [CHR 0x0A])
   \<and> getBlockMarkdown \<lparr>type_b = ''unstyled'', text_b = '' a'', inlineStyleRanges = [],
       entityRanges = [], data = None\<rparr> Map.empty
     \<noteq> Inr (blockPrefix \<lparr>type_b = ''unstyled'', text_b = '' a'', inlineStyleRanges = [],
              entityRanges = [], data = None\<rparr>
            @ concat (map escapeSpec '' a'') @ [CHR 0x0A])
   \<and> getBlockMarkdown \<lparr>type_b = ''unstyled'', text_b = ''hi'', inlineStyleRanges = [],
       entityRanges = [], data = Some [(''text-align'', ''center'')]\<rparr> Map.empty
     = Inr (''<span style='' @ [CHR 0x22] @ ''text-align:center;'' @ [CHR 0x22]
            @ ''>hi</span>'' @ [CHR 0x0A])
   \<and> getBlockMarkdown \<lparr>type_b = ''unstyled'', text_b = ''hi'', inlineStyleRanges = [],
       entityRanges = [], data = Some [(''text-align'', ''center'')]\<rparr> Map.empty
     \<noteq> Inr (blockPrefix \<lparr>type_b = ''unstyled'', text_b = ''hi'', inlineStyleRanges = [],
              entityRanges = [], data = Some [(''text-align'', ''center'')]\<rparr>
            @ concat (map escapeSpec ''hi'') @ [CHR 0x0A])"
  by code_simp

subsection \<open>Trimming of the first and last section\<close>

lemma getEntityMarkdown_Some:
  "getEntityMarkdown em k (Some t) = Inr v \<Longrightarrow> \<exists>t'. v = Some t'"
  by (auto simp: getEntityMarkdown_def split: option.splits if_splits)

lemma getEntitySectionMarkdown_Some:
  "getEntitySectionMarkdown b em s = Inr v \<Longrightarrow> v = Some (rendered b em s)"
  by (auto simp: getEntitySectionMarkdown_def rendered_def Let_def
      split: sum.splits option.splits dest: getEntityMarkdown_Some)

lemma contentBody_ok:
  assumes "\<not> isl (getEntitySectionMarkdown b em s)"
  shows "contentBody b em n (j, s) acc = Inr (acc @ [Some (edgeTrim n j (rendered b em s))])"
proof -
  from assms obtain v where v: "getEntitySectionMarkdown b em s = Inr v"
    by (cases "getEntitySectionMarkdown b em s") auto
  then have "v = Some (rendered b em s)" by (rule getEntitySectionMarkdown_Some)
  with v have "getEntitySectionMarkdown b em s = Inr (Some (rendered b em s))" by simp
  then show ?thesis
    by (auto simp: contentBody_def edgeTrim_def Let_def)
qed

lemma content_loop:
  "list_all (\<lambda>s. \<not> isl (getEntitySectionMarkdown b em s)) (map snd ps) \<Longrightarrow>
   forEachE (contentBody b em n) ps acc =
     Inr (acc @ map (\<lambda>(j, s). Some (edgeTrim n j (rendered b em s))) ps)"
proof (induction ps arbitrary: acc)
  case Nil
  show ?case by simp
next
  case (Cons p ps)
  obtain j s where p: "p = (j, s)" by (cases p)
  with Cons.prems have ok: "\<not> isl (getEntitySectionMarkdown b em s)" by simp
  show ?case
    using Cons.prems by (simp add: p contentBody_ok [OF ok] Cons.IH)
qed

lemma join_Some: "join (map (\<lambda>x. Some (f x)) xs) = concat (map f xs)"
  by (simp add: join_def comp_def)

lemma content_sections:
  assumes "\<not> isAtomicBlock b"
    and "list_all (\<lambda>s. \<not> isl (getEntitySectionMarkdown b em s))
           (getEntitySections (entityRanges b) (length (text_b b)))"
  shows "getBlockContentMarkdown b em =
    Inr (Some (concat (map (\<lambda>(j, s).
           edgeTrim (length (getEntitySections (entityRanges b) (length (text_b b)))) j
             (rendered b em s))
         (zip [0 ..< length (getEntitySections (entityRanges b) (length (text_b b)))]
              (getEntitySections (entityRanges b) (length (text_b b)))))))"
proof -
  let ?secs = "getEntitySections (entityRanges b) (length (text_b b))"
  let ?ps = "zip [0 ..< length ?secs] ?secs"
  have "map snd ?ps = ?secs" by simp
  with assms(2) have "list_all (\<lambda>s. \<not> isl (getEntitySectionMarkdown b em s)) (map snd ?ps)"
    by simp
  then have "forEachE (contentBody b em (length ?secs)) ?ps [] =
     Inr ([] @ map (\<lambda>(j, s). Some (edgeTrim (length ?secs) j (rendered b em s))) ?ps)"
    by (rule content_loop)
  moreover have "join (map (\<lambda>(j, s). Some (edgeTrim (length ?secs) j (rendered b em s))) ?ps) =
      concat (map (\<lambda>(j, s). edgeTrim (length ?secs) j (rendered b em s)) ?ps)"
    using join_Some [of "\<lambda>(j, s). edgeTrim (length ?secs) j (rendered b em s)" ?ps]
    by (simp add: case_prod_unfold)
  ultimately show ?thesis
    using assms(1) by (simp add: getBlockContentMarkdown_def Let_def)
qed

lemma mid_content:
  assumes "text_b b = ''  mid  ''" and "inlineStyleRanges b = []" and "entityRanges b = []"
  shows "getBlockContentMarkdown b em = Inr (Some ''&nbsp;&nbsp;mid&nbsp;&nbsp;'')"
proof -
  have "trimTrailingZeros (trimLeadingZeros (concat (map escapeSpec ''  mid  ''))) =
      ''&nbsp;&nbsp;mid&nbsp;&nbsp;''"
    by code_simp
  then show ?thesis
    using plain_content [OF assms(2,3), of em] by (simp add: assms(1))
qed

text \<open>
  C7. When the block is not atomic and its sections render, the content is the
  concatenation of the rendered sections in which only the first one has passed the
  leading replacement and only the last one the trailing replacement (one section that
  is both passes both); every other section is unchanged. The leading replacement turns
  each of the leading spaces into \<open>&nbsp;\<close> and keeps the rest from the first other
  character on, the trailing replacement does the same from the end. A block with the
  text of two spaces, \<open>mid\<close>, two spaces and no ranges has the content
  \<open>&nbsp;&nbsp;mid&nbsp;&nbsp;\<close>.
\<close>

theorem edge_sections_trimmed:
  "(\<not> isAtomicBlock b
     \<and> list_all (\<lambda>s. \<not> isl (getEntitySectionMarkdown b em s))
          (getEntitySections (entityRanges b) (length (text_b b)))
    \<longrightarrow> getBlockContentMarkdown b em =
        Inr (Some (concat (map (\<lambda>(j, s).
               edgeTrim (length (getEntitySections (entityRanges b) (length (text_b b)))) j
                 (rendered b em s))
             (zip [0 ..< length (getEntitySections (entityRanges b) (length (text_b b)))]
                  (getEntitySections (entityRanges b) (length (text_b b))))))))
   \<and> edgeTrim n j t =
       (if j = 0 then (if n = 1 then trimTrailingZeros (trimLeadingZeros t) else trimLeadingZeros t)
        else if Suc j = n then trimTrailingZeros t else t)
   \<and> trimLeadingZeros t = nbsps (leadingSpaces t) @ dropWhile isSpace t
   \<and> trimTrailingZeros t = rev (dropWhile isSpace (rev t)) @ nbsps (trailingSpaces t)
   \<and> (text_b b = ''  mid  '' \<and> inlineStyleRanges b = [] \<and> entityRanges b = []
    \<longrightarrow> getBlockContentMarkdown b em = Inr (Some ''&nbsp;&nbsp;mid&nbsp;&nbsp;''))"
proof -
  have "edgeTrim n j t =
       (if j = 0 then (if n = 1 then trimTrailingZeros (trimLeadingZeros t) else trimLeadingZeros t)
        else if Suc j = n then trimTrailingZeros t else t)"
    by (auto simp: edgeTrim_def)
  then show ?thesis
    using content_sections [of b em] mid_content [of b em]
      trimLeadingZeros_closed [of t] trimTrailingZeros_closed [of t]
    by (simp add: leadingSpaces_def trailingSpaces_def)
qed


theorem edge_sections_trimmed_witness:
  "\<not> isAtomicBlock \<lparr>type_b = ''unstyled'', text_b = '' aZ x b '', inlineStyleRanges = [],
        entityRanges = [\<lparr>offset = 3, length_r = 3, key = 0\<rparr>], data = None\<rparr>
   \<and> list_all (\<lambda>s. \<not> isl (getEntitySectionMarkdown
          \<lparr>type_b = ''unstyled'', text_b = '' aZ x b '', inlineStyleRanges = [],
           entityRanges = [\<lparr>offset = 3, length_r = 3, key = 0\<rparr>], data = None\<rparr>
          [0 \<mapsto> \<lparr>type_e = ''TOKEN'', data_e = Map.empty\<rparr>] s))
        (getEntitySections [\<lparr>offset = 3, length_r = 3, key = 0\<rparr>] 8)
   \<and> getEntitySections [\<lparr>offset = 3, length_r = 3, key = 0\<rparr>] 8 =
       [\<lparr>start = 0, end_s = 2, entityKey = None\<rparr>,
        \<lparr>start = 3, end_s = 6, entityKey = Some 0\<rparr>,
        \<lparr>start = 6, end_s = 8, entityKey = None\<rparr>]
   \<and> getBlockContentMarkdown
        \<lparr>type_b = ''unstyled'', text_b = '' aZ x b '', inlineStyleRanges = [],
         entityRanges = [\<lparr>offset = 3, length_r = 3, key = 0\<rparr>], data = None\<rparr>
        [0 \<mapsto> \<lparr>type_e = ''TOKEN'', data_e = Map.empty\<rparr>]
       = Inr (Some ''&nbsp;a x b&nbsp;'')
   \<and> getBlockContentMarkdown
        \<lparr>type_b = ''unstyled'', text_b = ''  mid  '', inlineStyleRanges = [],
         entityRanges = [], data = None\<rparr> Map.empty
       = Inr (Some ''&nbsp;&nbsp;mid&nbsp;&nbsp;'')"
proof -
  let ?b = "\<lparr>type_b = ''unstyled'', text_b = '' aZ x b '', inlineStyleRanges = [],
        entityRanges = [\<lparr>offset = 3, length_r = 3, key = 0\<rparr>], data = None\<rparr>"
  let ?em = "[0 \<mapsto> \<lparr>type_e = ''TOKEN'', data_e = Map.empty\<rparr>]"
  let ?m = "\<lparr>type_b = ''unstyled'', text_b = ''  mid  '', inlineStyleRanges = [],
         entityRanges = [], data = None\<rparr>"
  have h1: "\<not> isAtomicBlock ?b" by code_simp
  have h2: "list_all (\<lambda>s. \<not> isl (getEntitySectionMarkdown ?b ?em s))
      (getEntitySections (entityRanges ?b) (length (text_b ?b)))"
    by code_simp
  have h3: "list_all (\<lambda>s. \<not> isl (getEntitySectionMarkdown ?b ?em s))
      (getEntitySections [\<lparr>offset = 3, length_r = 3, key = 0\<rparr>] 8)"
    by code_simp
  have secs: "getEntitySections [\<lparr>offset = 3, length_r = 3, key = 0\<rparr>] 8 =
       [\<lparr>start = 0, end_s = 2, entityKey = None\<rparr>,
        \<lparr>start = 3, end_s = 6, entityKey = Some 0\<rparr>,
        \<lparr>start = 6, end_s = 8, entityKey = None\<rparr>]"
    by code_simp
  have rhs: "concat (map (\<lambda>(j, s).
               edgeTrim (length (getEntitySections (entityRanges ?b) (length (text_b ?b)))) j
                 (rendered ?b ?em s))
             (zip [0 ..< length (getEntitySections (entityRanges ?b) (length (text_b ?b)))]
                  (getEntitySections (entityRanges ?b) (length (text_b ?b)))))
      = ''&nbsp;a x b&nbsp;''"
    by code_simp
  from edge_sections_trimmed [of ?b ?em] h1 h2
  have c1: "getBlockContentMarkdown ?b ?em = Inr (Some ''&nbsp;a x b&nbsp;'')"
    unfolding rhs by blast
  from edge_sections_trimmed [of ?m Map.empty]
  have c2: "getBlockContentMarkdown ?m Map.empty = Inr (Some ''&nbsp;&nbsp;mid&nbsp;&nbsp;'')"
    by simp
  show ?thesis
    by (intro conjI) (rule h1 h3 secs c1 c2)+
qed

subsection \<open>Missing entities\<close>

lemma forEachE_Inl:
  "forEachE f xs s = Inl e \<Longrightarrow> \<exists>x \<in> set xs. \<exists>s'. f x s' = Inl e"
  by (induction xs arbitrary: s) (auto split: sum.splits)

lemma forEachE_total:
  "(\<And>x s. x \<in> set xs \<Longrightarrow> \<exists>s'. f x s = Inr s') \<Longrightarrow> \<exists>s'. forEachE f xs s = Inr s'"
proof (induction xs arbitrary: s)
  case Nil
  show ?case by simp
next
  case (Cons x xs)
  from Cons.prems [of x s] obtain s1 where "f x s = Inr s1" by auto
  moreover from Cons.IH [of s1] Cons.prems obtain s2 where "forEachE f xs s1 = Inr s2"
    by auto
  ultimately show ?case by simp
qed

lemma forEachE_fails:
  "x \<in> set xs \<Longrightarrow> (\<And>s. \<exists>e. f x s = Inl e) \<Longrightarrow> \<exists>e. forEachE f xs s0 = Inl e"
proof (induction xs arbitrary: s0)
  case Nil
  then show ?case by simp
next
  case (Cons y ys)
  show ?case
  proof (cases "f y s0")
    case (Inl e)
    then show ?thesis by simp
  next
    case (Inr s1)
    show ?thesis
    proof (cases "x = y")
      case True
      with Cons.prems(2) [of s0] Inr show ?thesis by simp
    next
      case False
      with Cons.prems have "x \<in> set ys" by simp
      from Cons.IH [OF this Cons.prems(2), of s1] Inr show ?thesis by simp
    qed
  qed
qed

lemma getStyleArrayForBlock_Inl:
  "getStyleArrayForBlock b = Inl e \<Longrightarrow> e = PropertyOnNumber"
  by (auto simp: getStyleArrayForBlock_def styleRanges_closed split: if_splits)

lemma sectionBody_Inl: "sectionBody text st keys a i secs = Inl e \<Longrightarrow> e = SectionUndefined"
  by (auto simp: sectionBody_def split: if_splits)

lemma getStyleSections_Inl:
  "getStyleSections b keys a e = Inl err \<Longrightarrow> err \<noteq> EntityUndefined"
  by (auto simp: getStyleSections_def split: if_splits sum.splits
      dest!: getStyleArrayForBlock_Inl forEachE_Inl sectionBody_Inl)

lemma styleSectionBody_Inl:
  "styleSectionBody b s acc = Inl err \<Longrightarrow> err \<noteq> EntityUndefined"
  by (auto simp: styleSectionBody_def split: sum.splits dest: getStyleSections_Inl)

lemma getEntityMarkdown_Inl:
  "getEntityMarkdown em k t = Inl e \<longleftrightarrow> e = EntityUndefined \<and> em k = None"
  by (auto simp: getEntityMarkdown_def split: option.splits)

lemma section_missing_entity:
  assumes "getEntitySectionMarkdown b em s = Inl EntityUndefined"
  shows "\<exists>k. entityKey s = Some k \<and> em k = None"
  using assms
  by (auto simp: getEntitySectionMarkdown_def Let_def getEntityMarkdown_Inl
      split: sum.splits option.splits
      dest: getStyleSections_Inl dest!: forEachE_Inl styleSectionBody_Inl)

lemma section_raises:
  assumes "entityKey s = Some k" and "em k = None"
  shows "\<exists>e. getEntitySectionMarkdown b em s = Inl e"
  using assms
  by (auto simp: getEntitySectionMarkdown_def Let_def getEntityMarkdown_Inl
      split: sum.splits)

lemma getStyleSections_total:
  assumes "\<not> list_ex writesOnLength (inlineStyleRanges b)"
  shows "\<exists>secs. getStyleSections b keys a e = Inr secs"
proof (cases "text_b b = [] \<or> \<not> a < e")
  case True
  then show ?thesis
    using getStyleArrayForBlock_ok [OF assms] by (auto simp: getStyleSections_def)
next
  case False
  then have ne: "text_b b \<noteq> []" and lt: "a < e" by auto
  from sections_loop [OF lt] obtain secs where
    "forEachE (sectionBody (text_b b)
       \<lparr>vec = lastWrite (inlineStyleRanges b), length_s = length (text_b b)\<rparr> keys a) [a ..< e] []
     = Inr secs"
    by blast
  then show ?thesis
    by (simp add: getStyleSections_ok [OF getStyleArrayForBlock_ok [OF assms] ne])
qed

lemma section_raises_lookup:
  assumes "entityKey s = Some k" and "em k = None"
    and "\<not> list_ex writesOnLength (inlineStyleRanges b)"
  shows "getEntitySectionMarkdown b em s = Inl EntityUndefined"
proof -
  obtain secs where secs: "getStyleSections b
      [BOLD, ITALIC, UNDERLINE, STRIKETHROUGH, CODE, SUPERSCRIPT, SUBSCRIPT] (start s) (end_s s)
      = Inr secs"
    using getStyleSections_total [OF assms(3)] by blast
  have "\<exists>acc'. styleSectionBody b x acc = Inr acc'" for x acc
    using getStyleSections_total [OF assms(3), of "[COLOR, BGCOLOR, FONTSIZE, FONTFAMILY]"
        "start x" "end_s x"]
    by (auto simp: styleSectionBody_def)
  then obtain t where "forEachE (styleSectionBody b) secs [] = Inr t"
    using forEachE_total [of secs "styleSectionBody b" "[]"] by blast
  then show ?thesis
    using assms(1,2) by (simp add: getEntitySectionMarkdown_def secs getEntityMarkdown_def)
qed


lemma getEntitySections_sectionsOf:
  "getEntitySections rs n =
     concat (map (sectionsOf rs) [0 ..< length rs])
     @ (if coverageEnd rs (length rs) < n
        then [\<lparr>start = coverageEnd rs (length rs), end_s = n, entityKey = None\<rparr>] else [])"
  by (simp add: getEntitySections_def fold_entityStep)

lemma section_key_of_range:
  assumes "s \<in> set (getEntitySections rs n)" and "entityKey s = Some k"
  shows "k \<in> key ` set rs"
proof -
  from assms obtain j where "j < length rs" and "s \<in> set (sectionsOf rs j)"
    by (auto simp: getEntitySections_sectionsOf split: if_splits)
  with assms(2) have "k = key (rs ! j)"
    by (auto simp: sectionsOf_def split: if_splits)
  with \<open>j < length rs\<close> show ?thesis by auto
qed

lemma range_has_section:
  assumes "r \<in> set rs"
  shows "\<exists>s \<in> set (getEntitySections rs n). entityKey s = Some (key r)"
proof -
  from assms obtain j where j: "j < length rs" and r: "rs ! j = r"
    by (auto simp: in_set_conv_nth)
  let ?s = "\<lparr>start = offset r, end_s = offset r + length_r r, entityKey = Some (key r)\<rparr>"
  have "?s \<in> set (sectionsOf rs j)"
    by (simp add: sectionsOf_def r)
  with j have "?s \<in> set (getEntitySections rs n)"
    by (auto simp: getEntitySections_sectionsOf)
  then show ?thesis by force
qed

lemma contentBody_Inl:
  "contentBody b em n (j, s) acc = Inl e \<longleftrightarrow> getEntitySectionMarkdown b em s = Inl e"
  by (auto simp: contentBody_def Let_def split: sum.splits)

lemma atomic_raises:
  "isAtomicBlock b \<Longrightarrow> em (key (hd (entityRanges b))) = None \<Longrightarrow>
   getBlockContentMarkdown b em = Inl EntityUndefined"
  by (simp add: getBlockContentMarkdown_def getEntityMarkdown_def)

lemma block_raises:
  assumes "\<not> isAtomicBlock b" and "list_ex (\<lambda>r. em (key r) = None) (entityRanges b)"
  shows "\<exists>e. getBlockContentMarkdown b em = Inl e"
proof -
  let ?secs = "getEntitySections (entityRanges b) (length (text_b b))"
  from assms(2) obtain r where r: "r \<in> set (entityRanges b)" and none: "em (key r) = None"
    by (auto simp: list_ex_iff)
  from range_has_section [OF r] obtain s where
    s: "s \<in> set ?secs" and k: "entityKey s = Some (key r)"
    by blast
  from s obtain j where "j < length ?secs" and "?secs ! j = s"
    by (auto simp: in_set_conv_nth)
  then have mem: "(j, s) \<in> set (zip [0 ..< length ?secs] ?secs)"
    by (auto simp: in_set_zip intro!: exI [of _ j])
  have fails: "\<exists>e. contentBody b em (length ?secs) (j, s) acc = Inl e" for acc
    using section_raises [of s "key r" em b] k none by (auto simp: contentBody_Inl)
  from forEachE_fails [of "(j, s)" "zip [0 ..< length ?secs] ?secs"
      "contentBody b em (length ?secs)" "[]"] mem fails obtain e where
    "forEachE (contentBody b em (length ?secs)) (zip [0 ..< length ?secs] ?secs) [] = Inl e"
    by blast
  then show ?thesis
    using assms(1) by (simp add: getBlockContentMarkdown_def Let_def)
qed

lemma block_no_lookup_error:
  assumes "list_all (\<lambda>r. em (key r) \<noteq> None) (entityRanges b)"
  shows "getBlockContentMarkdown b em \<noteq> Inl EntityUndefined"
proof (cases "isAtomicBlock b")
  case True
  then have "hd (entityRanges b) \<in> set (entityRanges b)"
    by (simp add: isAtomicBlock_def)
  with assms have "em (key (hd (entityRanges b))) \<noteq> None"
    by (simp add: list_all_iff)
  with True show ?thesis
    by (simp add: getBlockContentMarkdown_def getEntityMarkdown_Inl)
next
  case False
  let ?secs = "getEntitySections (entityRanges b) (length (text_b b))"
  show ?thesis
  proof
    assume "getBlockContentMarkdown b em = Inl EntityUndefined"
    with False have
      "forEachE (contentBody b em (length ?secs)) (zip [0 ..< length ?secs] ?secs) []
        = Inl EntityUndefined"
      by (simp add: getBlockContentMarkdown_def Let_def split: sum.splits)
    from forEachE_Inl [OF this] obtain j s acc where
      mem: "(j, s) \<in> set (zip [0 ..< length ?secs] ?secs)" and
      err: "contentBody b em (length ?secs) (j, s) acc = Inl EntityUndefined"
      by auto
    from mem have s: "s \<in> set ?secs" by (rule set_zip_rightD)
    from err have "getEntitySectionMarkdown b em s = Inl EntityUndefined"
      by (simp add: contentBody_Inl)
    from section_missing_entity [OF this] obtain k where
      k: "entityKey s = Some k" and none: "em k = None"
      by blast
    from section_key_of_range [OF s k] obtain r where
      "r \<in> set (entityRanges b)" and "k = key r"
      by auto
    with assms none show False
      by (auto simp: list_all_iff)
  qed
qed

text \<open>
  The lookup of a missing key, outside the defect that breaks C4. A block with a style
  range tagged \<open>__proto__\<close> stores \<open>true\<close> on \<open>Object.prototype\<close> at the offsets of the
  range; the lookup of a missing key among these offsets then finds that value, no error
  is raised and the section text is returned as it is. For a block without such a range:
  rendering an entity section whose key is not in the entity map raises an error, and
  the error is the failed lookup unless the style vector builder has thrown before it; so
  does the content of a block that is not atomic and has a range whose key is missing
  raise an error. Rendering an atomic block whose first key is missing raises the lookup
  error (the builder does not run). Conversely a section without a key, or whose key is
  in the map, does not raise the lookup error, and neither does a block all of whose
  range keys are in the map.
\<close>

theorem missing_entity_raises:
  "(noPrototypeWrite b \<and> entityKey s = Some k \<and> em k = None
     \<longrightarrow> (\<exists>e. getEntitySectionMarkdown b em s = Inl e)
       \<and> (\<not> list_ex writesOnLength (inlineStyleRanges b)
          \<longrightarrow> getEntitySectionMarkdown b em s = Inl EntityUndefined))
   \<and> (isAtomicBlock b \<and> em (key (hd (entityRanges b))) = None
     \<longrightarrow> getBlockContentMarkdown b em = Inl EntityUndefined)
   \<and> (noPrototypeWrite b \<and> \<not> isAtomicBlock b
       \<and> list_ex (\<lambda>r. em (key r) = None) (entityRanges b)
     \<longrightarrow> (\<exists>e. getBlockContentMarkdown b em = Inl e))
   \<and> ((entityKey s = None \<or> (\<exists>k. entityKey s = Some k \<and> em k \<noteq> None))
     \<longrightarrow> getEntitySectionMarkdown b em s \<noteq> Inl EntityUndefined)
   \<and> (list_all (\<lambda>r. em (key r) \<noteq> None) (entityRanges b)
     \<longrightarrow> getBlockContentMarkdown b em \<noteq> Inl EntityUndefined)"
  using section_raises [of s k em b] section_raises_lookup [of s k em b]
    atomic_raises [of b em] block_raises [of b em] section_missing_entity [of b em s]
    block_no_lookup_error [of em b]
  by auto


theorem missing_entity_raises_witness:
  "entityKey \<lparr>start = 0, end_s = 2, entityKey = Some 5\<rparr> = Some 5
   \<and> (Map.empty :: entityMap) 5 = None
   \<and> noPrototypeWrite
        \<lparr>type_b = ''unstyled'', text_b = ''ab'', inlineStyleRanges = [],
         entityRanges = [\<lparr>offset = 0, length_r = 2, key = 5\<rparr>], data = None\<rparr>
   \<and> \<not> list_ex writesOnLength (inlineStyleRanges
        \<lparr>type_b = ''unstyled'', text_b = ''ab'', inlineStyleRanges = [],
         entityRanges = [\<lparr>offset = 0, length_r = 2, key = 5\<rparr>], data = None\<rparr>)
   \<and> getEntitySectionMarkdown
        \<lparr>type_b = ''unstyled'', text_b = ''ab'', inlineStyleRanges = [],
         entityRanges = [\<lparr>offset = 0, length_r = 2, key = 5\<rparr>], data = None\<rparr>
        Map.empty \<lparr>start = 0, end_s = 2, entityKey = Some 5\<rparr> = Inl EntityUndefined
   \<and> isAtomicBlock
        \<lparr>type_b = ''unstyled'', text_b = [], inlineStyleRanges = [],
         entityRanges = [\<lparr>offset = 0, length_r = 0, key = 5\<rparr>], data = None\<rparr>
   \<and> getBlockContentMarkdown
        \<lparr>type_b = ''unstyled'', text_b = [], inlineStyleRanges = [],
         entityRanges = [\<lparr>offset = 0, length_r = 0, key = 5\<rparr>], data = None\<rparr>
        Map.empty = Inl EntityUndefined
   \<and> \<not> isAtomicBlock
        \<lparr>type_b = ''unstyled'', text_b = ''ab'', inlineStyleRanges = [],
         entityRanges = [\<lparr>offset = 0, length_r = 2, key = 5\<rparr>], data = None\<rparr>
   \<and> (\<exists>e. getBlockContentMarkdown
        \<lparr>type_b = ''unstyled'', text_b = ''ab'', inlineStyleRanges = [],
         entityRanges = [\<lparr>offset = 0, length_r = 2, key = 5\<rparr>], data = None\<rparr>
        Map.empty = Inl e)
   \<and> list_all (\<lambda>r. [5 \<mapsto> \<lparr>type_e = ''LINK'', data_e = [''url'' \<mapsto> ''u'']\<rparr>] (key r) \<noteq> None)
        (entityRanges
          \<lparr>type_b = ''unstyled'', text_b = ''ab'', inlineStyleRanges = [],
           entityRanges = [\<lparr>offset = 0, length_r = 2, key = 5\<rparr>], data = None\<rparr>)
   \<and> getBlockContentMarkdown
        \<lparr>type_b = ''unstyled'', text_b = ''ab'', inlineStyleRanges = [],
         entityRanges = [\<lparr>offset = 0, length_r = 2, key = 5\<rparr>], data = None\<rparr>
        [5 \<mapsto> \<lparr>type_e = ''LINK'', data_e = [''url'' \<mapsto> ''u'']\<rparr>] \<noteq> Inl EntityUndefined"
proof -
  let ?b = "\<lparr>type_b = ''unstyled'', text_b = ''ab'', inlineStyleRanges = [],
         entityRanges = [\<lparr>offset = 0, length_r = 2, key = 5\<rparr>], data = None\<rparr>"
  let ?a = "\<lparr>type_b = ''unstyled'', text_b = [], inlineStyleRanges = [],
         entityRanges = [\<lparr>offset = 0, length_r = 0, key = 5\<rparr>], data = None\<rparr>"
  let ?s = "\<lparr>start = 0, end_s = 2, entityKey = Some 5\<rparr>"
  let ?em = "[5 \<mapsto> \<lparr>type_e = ''LINK'', data_e = [''url'' \<mapsto> ''u'']\<rparr>]"
  have h1: "entityKey ?s = Some 5" by simp
  have h2: "(Map.empty :: entityMap) 5 = None" by simp
  have h0: "noPrototypeWrite ?b" by (simp add: noPrototypeWrite_def)
  have h3: "\<not> list_ex writesOnLength (inlineStyleRanges ?b)" by simp
  have h4: "isAtomicBlock ?a" by (simp add: isAtomicBlock_def isEmptyString_def)
  have h5: "(Map.empty :: entityMap) (key (hd (entityRanges ?a))) = None" by simp
  have h6: "\<not> isAtomicBlock ?b" by (simp add: isAtomicBlock_def isEmptyString_def)
  have h7: "list_ex (\<lambda>r. (Map.empty :: entityMap) (key r) = None) (entityRanges ?b)" by simp
  have h8: "list_all (\<lambda>r. ?em (key r) \<noteq> None) (entityRanges ?b)" by simp
  have c1: "getEntitySectionMarkdown ?b Map.empty ?s = Inl EntityUndefined"
    using missing_entity_raises [of ?b ?s 5 Map.empty] h0 h1 h2 h3 by blast
  have c2: "getBlockContentMarkdown ?a Map.empty = Inl EntityUndefined"
    using missing_entity_raises [of ?a ?s 5 Map.empty] h4 h5 by blast
  have c3: "\<exists>e. getBlockContentMarkdown ?b Map.empty = Inl e"
    using missing_entity_raises [of ?b ?s 5 Map.empty] h0 h6 h7 by blast
  have c4: "getBlockContentMarkdown ?b ?em \<noteq> Inl EntityUndefined"
    using missing_entity_raises [of ?b ?s 5 ?em] h8 by blast
  show ?thesis
    by (intro conjI) (rule h0 h1 h2 h3 h4 h6 h8 c1 c2 c3 c4)+
qed

end
